theory Spec2Isabelle
  imports Main
begin

section \<open>Python strings\<close>

text \<open>
  A Python \<open>str\<close> is a sequence of Unicode code points, so a string is a list of
  naturals (\<open>len\<close> counts code points, \<open>s[:-1]\<close> drops one code point).  ASCII
  literals are written \<open>str ''...''\<close>.
\<close>

type_synonym ustr = "nat list"

definition str :: "string \<Rightarrow> ustr" where
  "str cs = map of_char cs"

definition PLUS :: nat where "PLUS = 43"
definition SLASH :: nat where "SLASH = 47"
definition DOT :: nat where "DOT = 46"
definition QUESTION :: nat where "QUESTION = 63"
definition BANG :: nat where "BANG = 33"
definition SPACE :: nat where "SPACE = 32"
definition BAR :: nat where "BAR = 124"
definition NEWLINE :: nat where "NEWLINE = 10"

text \<open>\<open>s.endswith(suffix)\<close>\<close>

definition endswith :: "ustr \<Rightarrow> ustr \<Rightarrow> bool" where
  "endswith s suffix =
     (length suffix \<le> length s \<and> drop (length s - length suffix) s = suffix)"

text \<open>\<open>key in s\<close>: substring test (the empty key occurs in every string).\<close>

fun str_in :: "ustr \<Rightarrow> ustr \<Rightarrow> bool" where
  "str_in key [] = (key = [])"
| "str_in key (c # cs) = (take (length key) (c # cs) = key \<or> str_in key cs)"

text \<open>
  \<open>s.replace(old, new)\<close>: every non-overlapping occurrence of \<open>old\<close>, scanning from
  the left, is replaced.  For the empty \<open>old\<close> Python puts \<open>new\<close> in front of every
  code point and at the end.
\<close>

function replace_scan :: "ustr \<Rightarrow> ustr \<Rightarrow> ustr \<Rightarrow> ustr" where
  "replace_scan old new [] = []"
| "replace_scan old new (c # cs) =
     (if old \<noteq> [] \<and> take (length old) (c # cs) = old
      then new @ replace_scan old new (drop (length old) (c # cs))
      else c # replace_scan old new cs)"
  by pat_completeness auto
termination
  by (relation "measure (\<lambda>(old, new, s). length s)") auto

definition replace :: "ustr \<Rightarrow> ustr \<Rightarrow> ustr \<Rightarrow> ustr" where
  "replace s old new =
     (if old = [] then new @ concat (map (\<lambda>c. c # new) s) else replace_scan old new s)"

text \<open>\<open>sep.join(xs)\<close>\<close>

fun join :: "ustr \<Rightarrow> ustr list \<Rightarrow> ustr" where
  "join sep [] = []"
| "join sep [x] = x"
| "join sep (x # y # ys) = x @ sep @ join sep (y # ys)"

text \<open>\<open>s.split(c)\<close> for a separator of one code point; the result is never empty.\<close>

fun split :: "ustr \<Rightarrow> nat \<Rightarrow> ustr list" where
  "split [] c = [[]]"
| "split (x # xs) c =
     (if x = c then [] # split xs c
      else (case split xs c of [] \<Rightarrow> [[x]] | p # ps \<Rightarrow> (x # p) # ps))"

text \<open>
  \<open>s.strip()\<close> removes the code points for which \<open>str.isspace\<close> holds from both ends.
\<close>

definition isspace :: "nat \<Rightarrow> bool" where
  "isspace c =
     ((9 \<le> c \<and> c \<le> 13) \<or> (28 \<le> c \<and> c \<le> 32) \<or> c = 133 \<or> c = 160 \<or> c = 5760
      \<or> (8192 \<le> c \<and> c \<le> 8202) \<or> c = 8232 \<or> c = 8233 \<or> c = 8239 \<or> c = 8287
      \<or> c = 12288)"

definition strip :: "ustr \<Rightarrow> ustr" where
  "strip s = rev (dropWhile isspace (rev (dropWhile isspace s)))"


section \<open>The regular expression of \<open>matched\<close>\<close>

text \<open>
  \<open>Styler.matched\<close> is
  \<^verbatim>\<open>re.match(f"(^|.*\\+){re.escape(pattern)}(\\+.*|$)", string)\<close>.
  The fragment of Python's \<open>re\<close> it uses is embedded as a datatype with a
  backtracking matcher: \<open>ends r s i\<close> lists the positions at which a match of \<open>r\<close>
  that starts at position \<open>i\<close> of \<open>s\<close> can end.  No flag is given, so \<open>.\<close> matches
  every code point but the line feed, \<open>^\<close> matches at position 0 only, and \<open>$\<close>
  matches at the end of the string and also just before a line feed that ends the
  string.  \<open>re.escape(pattern)\<close> matches the pattern literally.  \<open>re.match\<close> asks for
  a match starting at position 0, ending anywhere.
\<close>

datatype regex = Bol | Eol | Lit ustr | DotStar | Alt regex regex | Seq regex regex

fun ends :: "regex \<Rightarrow> ustr \<Rightarrow> nat \<Rightarrow> nat list" where
  "ends Bol s i = (if i = 0 then [i] else [])"
| "ends Eol s i = (if drop i s = [] \<or> drop i s = [NEWLINE] then [i] else [])"
| "ends (Lit p) s i = (if take (length p) (drop i s) = p then [i + length p] else [])"
| "ends DotStar s i =
     map (\<lambda>k. i + k) [0..<Suc (length (takeWhile (\<lambda>c. c \<noteq> NEWLINE) (drop i s)))]"
| "ends (Alt a b) s i = ends a s i @ ends b s i"
| "ends (Seq a b) s i = concat (map (ends b s) (ends a s i))"

definition re_match :: "regex \<Rightarrow> ustr \<Rightarrow> bool" where
  "re_match r s = (ends r s 0 \<noteq> [])"

definition matched :: "ustr \<Rightarrow> ustr \<Rightarrow> bool" where
  "matched pattern string =
     re_match (Seq (Alt Bol (Seq DotStar (Lit [PLUS])))
                   (Seq (Lit pattern) (Alt (Seq (Lit [PLUS]) DotStar) Eol))) string"

text \<open>
  The specification's words for the matcher: the pattern occurs in the joined signature,
  starting at the beginning or right after a \<open>+\<close>, and ending at the end or right
  before a \<open>+\<close>.
\<close>

definition anchored :: "ustr \<Rightarrow> ustr \<Rightarrow> bool" where
  "anchored p s =
     (\<exists>pre rest. s = pre @ p @ rest
        \<and> (pre = [] \<or> last pre = PLUS) \<and> (rest = [] \<or> hd rest = PLUS))"

text \<open>What the two groups of the expression accept: the text in front of the pattern,
  and the text behind it.\<close>

definition lead_ok :: "ustr \<Rightarrow> bool" where
  "lead_ok pre = (pre = [] \<or> (\<exists>u. pre = u @ [PLUS] \<and> NEWLINE \<notin> set u))"

definition trail_ok :: "ustr \<Rightarrow> bool" where
  "trail_ok rest = (rest = [] \<or> rest = [NEWLINE] \<or> (\<exists>v. rest = PLUS # v))"


section \<open>Tokens, rule tables, errors\<close>

text \<open>
  The analyzer (Khaiii) returns tokens: a lexical form and its morphemes, each a surface
  and a tag; \<open>str(morph)\<close> renders a morpheme as \<open>surface/tag\<close>.
\<close>

record morph =
  mlex :: ustr
  tag :: ustr

record token =
  lex :: ustr
  morphs :: "morph list"

definition morph_str :: "morph \<Rightarrow> ustr" where
  "morph_str m = mlex m @ [SLASH] @ tag m"

text \<open>\<open>"+".join(map(str, token.morphs))\<close>\<close>

definition signature :: "token \<Rightarrow> ustr" where
  "signature t = join [PLUS] (map morph_str (morphs t))"

text \<open>
  The four class-level tables come from \<open>fetchers\<close>, which is not part of the sources
  at hand, so they are parameters.  \<open>RULES[listener][environ]\<close> is a record of a
  politeness level and a reason.  \<open>HONORIFICS\<close> maps a pattern to a dictionary from
  politeness level to replacement; \<open>ABBREVIATIONS\<close> and \<open>IRREGULARS\<close> map a key to its
  replacement.  The code iterates over the last three, so they are association lists in
  iteration order, and \<open>HONORIFICS[pattern]\<close> is \<open>map_of\<close>.
\<close>

record rule_case =
  politeness :: int
  reason :: ustr

type_synonym rules = "ustr \<rightharpoonup> (ustr \<rightharpoonup> rule_case)"
type_synonym honorifics = "(ustr \<times> (int \<rightharpoonup> ustr)) list"
type_synonym substitutions = "(ustr \<times> ustr) list"
type_synonym history = "(ustr \<times> ustr) set"

record tables =
  RULES :: rules
  HONORIFICS :: honorifics
  ABBREVIATIONS :: substitutions
  IRREGULARS :: substitutions

datatype pykey = NoneKey | StrKey ustr | IntKey int

datatype error =
    EFNotIncludedError ustr
  | EFNotSupportedError ustr
  | KeyError pykey
  | AttributeError
  | KhaiiiExcept

text \<open>The field \<open>out\<close> is typed \<open>Any\<close>: it holds a string, then the tokens, then a
  string again.\<close>

datatype outv = PyNone | Text ustr | Tokens "token list"


section \<open>The stages on their data\<close>

subsection \<open>\<open>Styler.preprocess\<close> and \<open>Tuner.preprocess\<close>\<close>

definition preprocess_text :: "ustr \<Rightarrow> ustr" where
  "preprocess_text sent =
     (let out = strip sent in
      if \<not> endswith out [QUESTION] \<and> \<not> endswith out [BANG]
      then (if \<not> endswith out [DOT] then out @ [DOT] else out)
      else out)"

definition tuner_preprocess_text :: "ustr \<Rightarrow> ustr" where
  "tuner_preprocess_text sent = (if \<not> endswith sent [DOT] then sent @ [DOT] else sent)"

subsection \<open>\<open>Styler.check\<close>\<close>

text \<open>The inner \<open>for ... break ... else\<close> raises when no key matches the signature.\<close>

fun check_efs :: "honorifics \<Rightarrow> ustr list \<Rightarrow> error option" where
  "check_efs H [] = None"
| "check_efs H (ef # efs) =
     (if list_ex (\<lambda>pattern. matched pattern ef) (map fst H) then check_efs H efs
      else Some (EFNotSupportedError ef))"

definition check_tokens :: "honorifics \<Rightarrow> token list \<Rightarrow> error option" where
  "check_tokens H toks =
     (let efs = filter (\<lambda>sg. str_in (str ''EF'') sg) (map signature toks) in
      if efs = [] then Some (EFNotIncludedError (join [BAR] (map signature toks)))
      else check_efs H efs)"

subsection \<open>\<open>Styler.conjugate\<close>\<close>

text \<open>\<open>"".join([morph.split("/")[0] for morph in morphs])\<close>\<close>

definition surface :: "ustr list \<Rightarrow> ustr" where
  "surface ms = concat (map (\<lambda>m. hd (split m SLASH)) ms)"

text \<open>The loop over \<open>HONORIFICS.keys()\<close> for one token: the working string \<open>tuned\<close> and
  the history set are threaded; a missing politeness level raises \<open>KeyError\<close> with the
  pairs recorded so far kept in the set.\<close>

fun conjugate_patterns ::
  "honorifics \<Rightarrow> int \<Rightarrow> ustr list \<Rightarrow> ustr \<Rightarrow> history \<Rightarrow> (error + ustr) \<times> history" where
  "conjugate_patterns H pol [] tuned hist = (Inr tuned, hist)"
| "conjugate_patterns H pol (pattern # ps) tuned hist =
     (if matched pattern tuned then
        (case map_of H pattern of
           None \<Rightarrow> (Inl (KeyError (StrKey pattern)), hist)
         | Some levels \<Rightarrow>
             (case levels pol of
                None \<Rightarrow> (Inl (KeyError (IntKey pol)), hist)
              | Some honorific \<Rightarrow>
                  conjugate_patterns H pol ps (replace tuned pattern honorific)
                    (insert (pattern, honorific) hist)))
      else conjugate_patterns H pol ps tuned hist)"

definition conjugate_token ::
  "honorifics \<Rightarrow> int \<Rightarrow> ustr \<times> ustr list \<Rightarrow> history \<Rightarrow> (error + ustr) \<times> history" where
  "conjugate_token H pol lm hist =
     (case lm of (lx, ms) \<Rightarrow>
        (case conjugate_patterns H pol (map fst H) (join [PLUS] ms) hist of
           (Inl e, hist') \<Rightarrow> (Inl e, hist')
         | (Inr tuned, hist') \<Rightarrow>
             (let bef = surface ms; aft = surface (split tuned PLUS)
              in (Inr (if bef \<noteq> aft then aft else lx), hist'))))"

fun conjugate_tokens ::
  "honorifics \<Rightarrow> int \<Rightarrow> (ustr \<times> ustr list) list \<Rightarrow> ustr list \<Rightarrow> history
     \<Rightarrow> (error + ustr list) \<times> history" where
  "conjugate_tokens H pol [] out hist = (Inr out, hist)"
| "conjugate_tokens H pol (lm # rest) out hist =
     (case conjugate_token H pol lm hist of
        (Inl e, hist') \<Rightarrow> (Inl e, hist')
      | (Inr w, hist') \<Rightarrow> conjugate_tokens H pol rest (out @ [w]) hist')"

text \<open>\<open>[(token.lex, list(map(str, token.morphs))) for token in self.out]\<close>\<close>

definition lex2morphs :: "token list \<Rightarrow> (ustr \<times> ustr list) list" where
  "lex2morphs toks = map (\<lambda>t. (lex t, map morph_str (morphs t))) toks"

subsection \<open>\<open>abbreviate\<close>, \<open>apply_irregulars\<close> (both classes)\<close>

text \<open>The two methods are the same loop, over \<open>ABBREVIATIONS.items()\<close> and over
  \<open>IRREGULARS.items()\<close>, each with its own history set.\<close>

fun substitute :: "substitutions \<Rightarrow> ustr \<Rightarrow> history \<Rightarrow> ustr \<times> history" where
  "substitute [] out hist = (out, hist)"
| "substitute ((key, val) # rest) out hist =
     (if str_in key out then substitute rest (replace out key val) (insert (key, val) hist)
      else substitute rest out hist)"

subsection \<open>\<open>Tuner.apply_honorifics\<close>\<close>

text \<open>\<open>itertools.combinations(range(n), 2)\<close>: the pairs \<open>i < j\<close> below \<open>n\<close>, and the
  \<open>+\<close>-joined contiguous spans \<open>morphs[i:j]\<close>.\<close>

definition combinations2 :: "nat \<Rightarrow> (nat \<times> nat) list" where
  "combinations2 n = concat (map (\<lambda>i. map (\<lambda>j. (i, j)) [Suc i..<n]) [0..<n])"

definition substrings :: "ustr list \<Rightarrow> ustr list" where
  "substrings ms =
     map (\<lambda>(i, j). join [PLUS] (take (j - i) (drop i ms))) (combinations2 (length ms + 1))"

text \<open>The inner loop has no match test: every key is looked up, replaced and recorded.\<close>

fun tuner_patterns ::
  "honorifics \<Rightarrow> int \<Rightarrow> ustr list \<Rightarrow> ustr \<Rightarrow> history \<Rightarrow> (error + ustr) \<times> history" where
  "tuner_patterns H pol [] tuned hist = (Inr tuned, hist)"
| "tuner_patterns H pol (pattern # ps) tuned hist =
     (case map_of H pattern of
        None \<Rightarrow> (Inl (KeyError (StrKey pattern)), hist)
      | Some levels \<Rightarrow>
          (case levels pol of
             None \<Rightarrow> (Inl (KeyError (IntKey pol)), hist)
           | Some honorific \<Rightarrow>
               tuner_patterns H pol ps (replace tuned pattern honorific)
                 (insert (pattern, honorific) hist)))"

definition tuner_token ::
  "honorifics \<Rightarrow> int \<Rightarrow> ustr \<times> ustr list \<Rightarrow> history \<Rightarrow> (error + ustr) \<times> history" where
  "tuner_token H pol lm hist =
     (case lm of (lx, ms) \<Rightarrow>
        if set (substrings ms) \<inter> set (map fst H) \<noteq> {} then
          (case tuner_patterns H pol (map fst H) (join [PLUS] ms) hist of
             (Inl e, hist') \<Rightarrow> (Inl e, hist')
           | (Inr tuned, hist') \<Rightarrow> (Inr (surface (split tuned PLUS)), hist'))
        else (Inr lx, hist))"

fun tuner_tokens ::
  "honorifics \<Rightarrow> int \<Rightarrow> (ustr \<times> ustr list) list \<Rightarrow> ustr list \<Rightarrow> history
     \<Rightarrow> (error + ustr list) \<times> history" where
  "tuner_tokens H pol [] out hist = (Inr out, hist)"
| "tuner_tokens H pol (lm # rest) out hist =
     (case tuner_token H pol lm hist of
        (Inl e, hist') \<Rightarrow> (Inl e, hist')
      | (Inr w, hist') \<Rightarrow> tuner_tokens H pol rest (out @ [w]) hist')"

text \<open>\<open>Tuner.postprocess\<close>: \<open>self.out if self.sent.endswith(".") else self.out[:-1]\<close>\<close>

definition postprocess_text :: "ustr \<Rightarrow> ustr \<Rightarrow> ustr" where
  "postprocess_text sent out = (if endswith sent [DOT] then out else butlast out)"


section \<open>The two pipelines on their instance state\<close>

text \<open>
  A step is a method of the instance: it updates the fields and may raise.  The state at
  the moment of the exception is kept, because the instance outlives the call.
\<close>

type_synonym 'st step = "'st \<Rightarrow> error option \<times> 'st"

definition and_then :: "'st step \<Rightarrow> 'st step \<Rightarrow> 'st step" where
  "and_then f g st = (case f st of (None, st') \<Rightarrow> g st' | (Some e, st') \<Rightarrow> (Some e, st'))"

fun run_steps :: "'st step list \<Rightarrow> 'st step" where
  "run_steps [] st = (None, st)"
| "run_steps (f # fs) st = and_then f (run_steps fs) st"

subsection \<open>\<open>Styler\<close>\<close>

record styler =
  args :: "string \<rightharpoonup> ustr"
  out :: outv
  logs :: "outv list"
  history_conjugations :: history
  history_abbreviations :: history
  history_irregulars :: history

text \<open>
  Inside \<open>__call__\<close> the field \<open>out\<close> always has the type a step expects.  Called on
  another state, Python fails in a way that depends on the run-time type; the model
  answers \<open>AttributeError\<close> there.
\<close>

definition clear :: "styler step" where
  "clear st = (None, st\<lparr>logs := [], history_conjugations := {},
                        history_abbreviations := {}, history_irregulars := {}\<rparr>)"

definition log :: "styler step" where
  "log st = (None, st\<lparr>logs := logs st @ [out st]\<rparr>)"

definition preprocess :: "styler step" where
  "preprocess st =
     (case args st ''sent'' of
        None \<Rightarrow> (Some (KeyError (StrKey (str ''sent''))), st)
      | Some snt \<Rightarrow> (None, st\<lparr>out := Text (preprocess_text snt)\<rparr>))"

definition analyze :: "(ustr \<Rightarrow> token list option) \<Rightarrow> styler step" where
  "analyze khaiii st =
     (case out st of
        Text txt \<Rightarrow>
          (case khaiii txt of
             None \<Rightarrow> (Some KhaiiiExcept, st)
           | Some toks \<Rightarrow> (None, st\<lparr>out := Tokens toks\<rparr>))
      | _ \<Rightarrow> (Some AttributeError, st))"

definition check :: "tables \<Rightarrow> styler step" where
  "check T st =
     (case out st of
        Tokens toks \<Rightarrow> (check_tokens (HONORIFICS T) toks, st)
      | _ \<Rightarrow> (Some AttributeError, st))"

definition conjugate :: "tables \<Rightarrow> styler step" where
  "conjugate T st =
     (case args st ''listener'' of
        None \<Rightarrow> (Some (KeyError (StrKey (str ''listener''))), st)
      | Some lsn \<Rightarrow>
     (case RULES T lsn of
        None \<Rightarrow> (Some (KeyError (StrKey lsn)), st)
      | Some by_environ \<Rightarrow>
     (case args st ''environ'' of
        None \<Rightarrow> (Some (KeyError (StrKey (str ''environ''))), st)
      | Some env \<Rightarrow>
     (case by_environ env of
        None \<Rightarrow> (Some (KeyError (StrKey env)), st)
      | Some rc \<Rightarrow>
     (case out st of
        Tokens toks \<Rightarrow>
          (case conjugate_tokens (HONORIFICS T) (politeness rc) (lex2morphs toks) []
                  (history_conjugations st) of
             (Inl e, h) \<Rightarrow> (Some e, st\<lparr>history_conjugations := h\<rparr>)
           | (Inr ws, h) \<Rightarrow>
               (None, st\<lparr>out := Text (join [SPACE] ws), history_conjugations := h\<rparr>))
      | _ \<Rightarrow> (Some AttributeError, st))))))"

definition abbreviate :: "tables \<Rightarrow> styler step" where
  "abbreviate T st =
     (case out st of
        Text txt \<Rightarrow>
          (case substitute (ABBREVIATIONS T) txt (history_abbreviations st) of
             (txt', h) \<Rightarrow> (None, st\<lparr>out := Text txt', history_abbreviations := h\<rparr>))
      | _ \<Rightarrow> (Some AttributeError, st))"

definition apply_irregulars :: "tables \<Rightarrow> styler step" where
  "apply_irregulars T st =
     (case out st of
        Text txt \<Rightarrow>
          (case substitute (IRREGULARS T) txt (history_irregulars st) of
             (txt', h) \<Rightarrow> (None, st\<lparr>out := Text txt', history_irregulars := h\<rparr>))
      | _ \<Rightarrow> (Some AttributeError, st))"

text \<open>
  \<open>Styler.__call__\<close>: \<open>self.args.update(locals())\<close>, then the chain
  \<open>clear().preprocess().analyze().check().log().conjugate().log().abbreviate().log()
  .apply_irregulars().log()\<close>, then \<open>return self.out\<close>.  The result is the returned
  value or the exception, with the state the instance is left in.
\<close>

definition Styler_call ::
  "tables \<Rightarrow> (ustr \<Rightarrow> token list option) \<Rightarrow> styler \<Rightarrow> ustr \<Rightarrow> ustr \<Rightarrow> ustr
     \<Rightarrow> (error + outv) \<times> styler" where
  "Styler_call T khaiii st snt lsn env =
     (case run_steps
             [clear, preprocess, analyze khaiii, check T, log, conjugate T, log,
              abbreviate T, log, apply_irregulars T, log]
             (st\<lparr>args := (args st)(''sent'' \<mapsto> snt, ''listener'' \<mapsto> lsn, ''environ'' \<mapsto> env)\<rparr>) of
        (None, st') \<Rightarrow> (Inr (out st'), st')
      | (Some e, st') \<Rightarrow> (Inl e, st'))"

subsection \<open>\<open>Tuner\<close> (the legacy variant)\<close>

record tuner =
  t_sent :: "ustr option"
  t_listener :: "ustr option"
  t_visibility :: "ustr option"
  t_out :: outv
  t_logs :: "outv list"
  history_honorifics :: history
  t_history_abbreviations :: history
  t_history_irregulars :: history

definition t_clear :: "tuner step" where
  "t_clear st = (None, st\<lparr>t_logs := [], history_honorifics := {},
                          t_history_abbreviations := {}, t_history_irregulars := {}\<rparr>)"

definition t_log :: "tuner step" where
  "t_log st = (None, st\<lparr>t_logs := t_logs st @ [t_out st]\<rparr>)"

definition t_preprocess :: "tuner step" where
  "t_preprocess st =
     (case t_sent st of
        None \<Rightarrow> (Some AttributeError, st)
      | Some snt \<Rightarrow> (None, st\<lparr>t_out := Text (tuner_preprocess_text snt)\<rparr>))"

definition analyze_morphemes :: "(ustr \<Rightarrow> token list option) \<Rightarrow> tuner step" where
  "analyze_morphemes khaiii st =
     (case t_out st of
        Text txt \<Rightarrow>
          (case khaiii txt of
             None \<Rightarrow> (Some KhaiiiExcept, st)
           | Some toks \<Rightarrow> (None, st\<lparr>t_out := Tokens toks\<rparr>))
      | _ \<Rightarrow> (Some AttributeError, st))"

definition key_of :: "ustr option \<Rightarrow> pykey" where
  "key_of k = (case k of None \<Rightarrow> NoneKey | Some x \<Rightarrow> StrKey x)"

definition apply_honorifics :: "tables \<Rightarrow> tuner step" where
  "apply_honorifics T st =
     (case (case t_listener st of None \<Rightarrow> None | Some lsn \<Rightarrow> RULES T lsn) of
        None \<Rightarrow> (Some (KeyError (key_of (t_listener st))), st)
      | Some by_visibility \<Rightarrow>
     (case (case t_visibility st of None \<Rightarrow> None | Some vis \<Rightarrow> by_visibility vis) of
        None \<Rightarrow> (Some (KeyError (key_of (t_visibility st))), st)
      | Some rc \<Rightarrow>
     (case t_out st of
        Tokens toks \<Rightarrow>
          (case tuner_tokens (HONORIFICS T) (politeness rc) (lex2morphs toks) []
                  (history_honorifics st) of
             (Inl e, h) \<Rightarrow> (Some e, st\<lparr>history_honorifics := h\<rparr>)
           | (Inr ws, h) \<Rightarrow>
               (None, st\<lparr>t_out := Text (join [SPACE] ws), history_honorifics := h\<rparr>))
      | _ \<Rightarrow> (Some AttributeError, st))))"

definition apply_abbreviations :: "tables \<Rightarrow> tuner step" where
  "apply_abbreviations T st =
     (case t_out st of
        Text txt \<Rightarrow>
          (case substitute (ABBREVIATIONS T) txt (t_history_abbreviations st) of
             (txt', h) \<Rightarrow> (None, st\<lparr>t_out := Text txt', t_history_abbreviations := h\<rparr>))
      | _ \<Rightarrow> (Some AttributeError, st))"

definition t_apply_irregulars :: "tables \<Rightarrow> tuner step" where
  "t_apply_irregulars T st =
     (case t_out st of
        Text txt \<Rightarrow>
          (case substitute (IRREGULARS T) txt (t_history_irregulars st) of
             (txt', h) \<Rightarrow> (None, st\<lparr>t_out := Text txt', t_history_irregulars := h\<rparr>))
      | _ \<Rightarrow> (Some AttributeError, st))"

definition postprocess :: "tuner step" where
  "postprocess st =
     (case (t_sent st, t_out st) of
        (Some snt, Text txt) \<Rightarrow> (None, st\<lparr>t_out := Text (postprocess_text snt txt)\<rparr>)
      | _ \<Rightarrow> (Some AttributeError, st))"

definition steps :: "tables \<Rightarrow> (ustr \<Rightarrow> token list option) \<Rightarrow> tuner step list" where
  "steps T khaiii =
     [t_clear, t_preprocess, analyze_morphemes khaiii, t_log, apply_honorifics T, t_log,
      apply_abbreviations T, t_log, t_apply_irregulars T, t_log, postprocess]"

definition Tuner_call ::
  "tables \<Rightarrow> (ustr \<Rightarrow> token list option) \<Rightarrow> tuner \<Rightarrow> ustr \<Rightarrow> ustr \<Rightarrow> ustr
     \<Rightarrow> (error + outv) \<times> tuner" where
  "Tuner_call T khaiii st snt lsn vis =
     (case run_steps (steps T khaiii)
             (st\<lparr>t_sent := Some snt, t_listener := Some lsn, t_visibility := Some vis\<rparr>) of
        (None, st') \<Rightarrow> (Inr (t_out st'), st')
      | (Some e, st') \<Rightarrow> (Inl e, st'))"


section \<open>Reference definitions for the statements\<close>

text \<open>The instances as \<open>__init__\<close> leaves them.\<close>

definition Styler_init :: styler where
  "Styler_init = \<lparr>args = Map.empty, out = PyNone, logs = [], history_conjugations = {},
                   history_abbreviations = {}, history_irregulars = {}\<rparr>"

definition Tuner_init :: tuner where
  "Tuner_init = \<lparr>t_sent = None, t_listener = None, t_visibility = None, t_out = PyNone,
                  t_logs = [], history_honorifics = {}, t_history_abbreviations = {},
                  t_history_irregulars = {}\<rparr>"

text \<open>The state after \<open>clear\<close> and \<open>preprocess\<close>, from which every outcome of a call is
  described.\<close>

definition styler_start :: "styler \<Rightarrow> ustr \<Rightarrow> ustr \<Rightarrow> ustr \<Rightarrow> styler" where
  "styler_start st snt lsn env =
     st\<lparr>args := (args st)(''sent'' \<mapsto> snt, ''listener'' \<mapsto> lsn, ''environ'' \<mapsto> env),
        out := Text (preprocess_text snt), logs := [],
        history_conjugations := {}, history_abbreviations := {}, history_irregulars := {}\<rparr>"

definition tuner_start :: "tuner \<Rightarrow> ustr \<Rightarrow> ustr \<Rightarrow> ustr \<Rightarrow> tuner" where
  "tuner_start st snt lsn vis =
     st\<lparr>t_sent := Some snt, t_listener := Some lsn, t_visibility := Some vis,
        t_out := Text (tuner_preprocess_text snt), t_logs := [],
        history_honorifics := {}, t_history_abbreviations := {}, t_history_irregulars := {}\<rparr>"

text \<open>\<open>RULES[listener][environ]\<close> as one lookup: \<open>None\<close> when the pair is absent.\<close>

definition rule_lookup :: "tables \<Rightarrow> ustr \<Rightarrow> ustr \<Rightarrow> rule_case option" where
  "rule_lookup T lsn env = (case RULES T lsn of None \<Rightarrow> None | Some by_environ \<Rightarrow> by_environ env)"

text \<open>What an explainer can read from the instance after a call: the current output, the
  logs and the three history sets.\<close>

definition styler_obs :: "styler \<Rightarrow> outv \<times> outv list \<times> history \<times> history \<times> history" where
  "styler_obs st = (out st, logs st, history_conjugations st, history_abbreviations st,
                    history_irregulars st)"

text \<open>
  \<open>level_table H pol tab\<close>: \<open>tab\<close> lists the keys of \<open>H\<close> in table order, each with its
  replacement for the politeness level \<open>pol\<close>.
\<close>

definition has_level :: "honorifics \<Rightarrow> int \<Rightarrow> ustr \<times> ustr \<Rightarrow> bool" where
  "has_level H pol ph =
     (case ph of (p, h) \<Rightarrow>
        (case map_of H p of None \<Rightarrow> False | Some levels \<Rightarrow> levels pol = Some h))"

definition level_table :: "honorifics \<Rightarrow> int \<Rightarrow> (ustr \<times> ustr) list \<Rightarrow> bool" where
  "level_table H pol tab = (map fst tab = map fst H \<and> list_all (has_level H pol) tab)"

text \<open>What \<open>Styler.conjugate\<close> appends for one token, given the working string after the
  loop over the keys: the reconstructed surface when it differs from the concatenated
  surfaces of the original morphemes, else the lexical form.\<close>

definition emit :: "ustr \<Rightarrow> ustr list \<Rightarrow> ustr \<Rightarrow> ustr" where
  "emit lx ms tuned =
     (if surface ms \<noteq> surface (split tuned PLUS) then surface (split tuned PLUS) else lx)"

text \<open>
  The specification's words for a substitution pass over a rule table, in table order: a
  pair whose key passes the test on the current working string is applied to it (all
  occurrences replaced) and noted; a pair whose key does not is skipped.  The result is
  the final working string and the applied pairs in order.  The conjugation stage uses
  the test \<open>matched\<close>, the cleanup stages the test \<open>str_in\<close>.
\<close>

fun spec_apply ::
  "(ustr \<Rightarrow> ustr \<Rightarrow> bool) \<Rightarrow> (ustr \<times> ustr) list \<Rightarrow> ustr \<Rightarrow> ustr \<times> (ustr \<times> ustr) list" where
  "spec_apply test [] w = (w, [])"
| "spec_apply test ((k, v) # tab) w =
     (if test k w
      then (case spec_apply test tab (replace w k v) of (w', ap) \<Rightarrow> (w', (k, v) # ap))
      else spec_apply test tab w)"

text \<open>Replacing every key of the table in order, with no test.\<close>

fun replace_each :: "(ustr \<times> ustr) list \<Rightarrow> ustr \<Rightarrow> ustr" where
  "replace_each [] w = w"
| "replace_each ((k, v) # tab) w = replace_each tab (replace w k v)"

text \<open>The greeting of the specification's scenario, and its abbreviation.\<close>

definition annyeonghaseyo :: ustr where
  "annyeonghaseyo = [50504, 45397, 54616, 49464, 50836]"

definition annyonghaseyo :: ustr where
  "annyonghaseyo = [50504, 45565, 54616, 49464, 50836]"

text \<open>A small rule set and an analysis, for concrete runs.\<close>

definition ex_H :: honorifics where
  "ex_H = [(str ''da/EF'', [1 \<mapsto> str ''da/EF'', 2 \<mapsto> str ''yo/EF''])]"

definition ex_H2 :: honorifics where
  "ex_H2 = [(str ''da/EF'', [1 \<mapsto> str ''yo/EF'']), (str ''ni/EF'', [1 \<mapsto> str ''nayo/EF''])]"

definition ex_T :: tables where
  "ex_T = \<lparr>RULES = [str ''friend'' \<mapsto> [str ''private'' \<mapsto> \<lparr>politeness = 2, reason = []\<rparr>]],
           HONORIFICS = ex_H,
           ABBREVIATIONS = [(str ''yo'', str ''yoo'')],
           IRREGULARS = [(str ''.'', str ''!'')]\<rparr>"

definition ex_toks :: "token list" where
  "ex_toks =
     [\<lparr>lex = str ''gada.'',
       morphs = [\<lparr>mlex = str ''ga'', tag = str ''VV''\<rparr>, \<lparr>mlex = str ''da'', tag = str ''EF''\<rparr>,
                 \<lparr>mlex = str ''.'', tag = str ''SF''\<rparr>]\<rparr>]"

definition ex_khaiii :: "ustr \<Rightarrow> token list option" where
  "ex_khaiii txt = Some ex_toks"


text \<open>\<open>"EF" in signature\<close>, the test of \<open>Styler.check\<close>, and "some key matches the
  signature".\<close>

definition is_ef :: "ustr \<Rightarrow> bool" where
  "is_ef sg = str_in (str ''EF'') sg"

definition supported :: "honorifics \<Rightarrow> ustr \<Rightarrow> bool" where
  "supported H sg = list_ex (\<lambda>pattern. matched pattern sg) (map fst H)"

text \<open>
  A token with a final ending: one of its morphemes is tagged \<open>EF\<close>.  In
  \<open>ef_only_tagged toks\<close> the text \<open>EF\<close> occurs in the joined signature of a token of
  \<open>toks\<close> only when the token has such a morpheme.
\<close>

definition ef_tagged :: "token \<Rightarrow> bool" where
  "ef_tagged t = list_ex (\<lambda>m. tag m = str ''EF'') (morphs t)"

definition ef_only_tagged :: "token list \<Rightarrow> bool" where
  "ef_only_tagged toks = list_all (\<lambda>t. is_ef (signature t) \<longrightarrow> ef_tagged t) toks"

text \<open>Tokens for concrete runs: a noun phrase, a final ending that no key of \<open>ex_H\<close>
  covers, a foreign word whose surface contains \<open>EF\<close>, and \<open>1+1\<close> with its \<open>+\<close>
  morpheme.\<close>

definition noun_tok :: token where
  "noun_tok = \<lparr>lex = str ''bap.'',
               morphs = [\<lparr>mlex = str ''bap'', tag = str ''NNG''\<rparr>, \<lparr>mlex = str ''.'', tag = str ''SF''\<rparr>]\<rparr>"

definition unsup_tok :: token where
  "unsup_tok = \<lparr>lex = str ''ganda.'',
                morphs = [\<lparr>mlex = str ''ga'', tag = str ''VV''\<rparr>, \<lparr>mlex = str ''nda'', tag = str ''EF''\<rparr>,
                          \<lparr>mlex = str ''.'', tag = str ''SF''\<rparr>]\<rparr>"

definition chef_tok :: token where
  "chef_tok = \<lparr>lex = str ''CHEF'', morphs = [\<lparr>mlex = str ''CHEF'', tag = str ''SL''\<rparr>]\<rparr>"

definition plus_tok :: token where
  "plus_tok = \<lparr>lex = str ''1+1'',
               morphs = [\<lparr>mlex = str ''1'', tag = str ''SN''\<rparr>, \<lparr>mlex = str ''+'', tag = str ''SW''\<rparr>,
                         \<lparr>mlex = str ''1'', tag = str ''SN''\<rparr>]\<rparr>"


section \<open>The pattern matcher\<close>

lemma le_length_takeWhile:
  "k \<le> length (takeWhile P xs) \<longleftrightarrow> k \<le> length xs \<and> (\<forall>x\<in>set (take k xs). P x)"
proof (induction xs arbitrary: k)
  case Nil
  then show ?case by simp
next
  case (Cons a xs)
  then show ?case by (cases k) auto
qed

lemma set_ends_DotStar:
  "set (ends DotStar s i) =
     {j. i \<le> j \<and> j \<le> i + length (takeWhile (\<lambda>c. c \<noteq> NEWLINE) (drop i s))}"
proof (intro set_eqI iffI)
  fix j
  assume "j \<in> {j. i \<le> j \<and> j \<le> i + length (takeWhile (\<lambda>c. c \<noteq> NEWLINE) (drop i s))}"
  then have "j = i + (j - i)"
    and "j - i < Suc (length (takeWhile (\<lambda>c. c \<noteq> NEWLINE) (drop i s)))"
    by auto
  then show "j \<in> set (ends DotStar s i)"
    by (simp only: ends.simps set_map set_upt image_iff) (metis atLeastLessThan_iff le0)
next
  fix j
  assume "j \<in> set (ends DotStar s i)"
  then show "j \<in> {j. i \<le> j \<and> j \<le> i + length (takeWhile (\<lambda>c. c \<noteq> NEWLINE) (drop i s))}"
    by auto
qed

lemma set_ends_Lit:
  "set (ends (Lit p) s i) = {j. take (length p) (drop i s) = p \<and> j = i + length p}"
  by auto

lemma set_ends_Seq:
  "set (ends (Seq a b) s i) = (\<Union>j\<in>set (ends a s i). set (ends b s j))"
  by simp

lemma set_ends_Alt:
  "set (ends (Alt a b) s i) = set (ends a s i) \<union> set (ends b s i)"
  by simp

lemma ends_tail:
  "ends (Alt (Seq (Lit [PLUS]) DotStar) Eol) s j \<noteq> [] \<longleftrightarrow>
     take (Suc 0) (drop j s) = [PLUS] \<or> drop j s = [] \<or> drop j s = [NEWLINE]"
  by simp

lemma set_ends_lead:
  "set (ends (Alt Bol (Seq DotStar (Lit [PLUS]))) s 0) =
     {i. i = 0 \<or> (\<exists>k. k \<le> length (takeWhile (\<lambda>c. c \<noteq> NEWLINE) s)
                       \<and> take (Suc 0) (drop k s) = [PLUS] \<and> i = Suc k)}"
  unfolding set_ends_Alt set_ends_Seq set_ends_DotStar set_ends_Lit
  by auto

lemma ends_Seq_nonempty:
  "ends (Seq a b) s i \<noteq> [] \<longleftrightarrow> (\<exists>j\<in>set (ends a s i). ends b s j \<noteq> [])"
  by simp

lemma matched_pos:
  "matched p s \<longleftrightarrow>
     (\<exists>i. (i = 0 \<or> (\<exists>k. k \<le> length (takeWhile (\<lambda>c. c \<noteq> NEWLINE) s)
                       \<and> take (Suc 0) (drop k s) = [PLUS] \<and> i = Suc k))
        \<and> take (length p) (drop i s) = p
        \<and> (take (Suc 0) (drop (i + length p) s) = [PLUS] \<or> drop (i + length p) s = []
             \<or> drop (i + length p) s = [NEWLINE]))"
proof -
  have "matched p s \<longleftrightarrow>
     (\<exists>i\<in>set (ends (Alt Bol (Seq DotStar (Lit [PLUS]))) s 0).
        \<exists>j\<in>set (ends (Lit p) s i). ends (Alt (Seq (Lit [PLUS]) DotStar) Eol) s j \<noteq> [])"
    unfolding matched_def re_match_def
    by (simp only: ends_Seq_nonempty)
  also have "\<dots> \<longleftrightarrow>
     (\<exists>i. (i = 0 \<or> (\<exists>k. k \<le> length (takeWhile (\<lambda>c. c \<noteq> NEWLINE) s)
                       \<and> take (Suc 0) (drop k s) = [PLUS] \<and> i = Suc k))
        \<and> take (length p) (drop i s) = p
        \<and> (take (Suc 0) (drop (i + length p) s) = [PLUS] \<or> drop (i + length p) s = []
             \<or> drop (i + length p) s = [NEWLINE]))"
    unfolding set_ends_lead set_ends_Lit ends_tail by blast
  finally show ?thesis .
qed

lemma take1_eq: "take (Suc 0) xs = [c] \<longleftrightarrow> (\<exists>v. xs = c # v)"
  by (cases xs) auto

lemma lead_pos_iff:
  assumes "i \<le> length s"
  shows "(i = 0 \<or> (\<exists>k. k \<le> length (takeWhile (\<lambda>c. c \<noteq> NEWLINE) s)
                      \<and> take (Suc 0) (drop k s) = [PLUS] \<and> i = Suc k))
         \<longleftrightarrow> lead_ok (take i s)"
proof (cases i)
  case 0
  then show ?thesis by (simp add: lead_ok_def)
next
  case (Suc k)
  with assms have k: "k < length s" by simp
  then have tk: "take (Suc k) s = take k s @ [s ! k]"
    by (simp add: take_Suc_conv_app_nth)
  have d: "drop k s = s ! k # drop (Suc k) s"
    using k by (simp add: Cons_nth_drop_Suc)
  have "(k \<le> length (takeWhile (\<lambda>c. c \<noteq> NEWLINE) s) \<and> take (Suc 0) (drop k s) = [PLUS])
        \<longleftrightarrow> (NEWLINE \<notin> set (take k s) \<and> s ! k = PLUS)"
    using k d by (auto simp: le_length_takeWhile)
  also have "\<dots> \<longleftrightarrow> lead_ok (take (Suc k) s)"
    unfolding lead_ok_def tk by auto
  finally show ?thesis using Suc by simp
qed

text \<open>What the expression accepts, line feeds included.\<close>

lemma matched_split:
  "matched p s \<longleftrightarrow> (\<exists>pre rest. s = pre @ p @ rest \<and> lead_ok pre \<and> trail_ok rest)"
proof
  assume "matched p s"
  then obtain i where
    lead: "i = 0 \<or> (\<exists>k. k \<le> length (takeWhile (\<lambda>c. c \<noteq> NEWLINE) s)
                      \<and> take (Suc 0) (drop k s) = [PLUS] \<and> i = Suc k)"
    and lit: "take (length p) (drop i s) = p"
    and tr: "take (Suc 0) (drop (i + length p) s) = [PLUS] \<or> drop (i + length p) s = []
             \<or> drop (i + length p) s = [NEWLINE]"
    unfolding matched_pos by blast
  have il: "i \<le> length s"
    using lead by (auto simp: take1_eq Suc_le_eq) (metis drop_all list.distinct(1) not_less)
  have "drop i s = take (length p) (drop i s) @ drop (length p) (drop i s)"
    by (simp only: append_take_drop_id)
  then have "drop i s = p @ drop (i + length p) s"
    using lit by (simp add: add.commute)
  then have split: "s = take i s @ p @ drop (i + length p) s"
    by (metis append_take_drop_id)
  have "lead_ok (take i s)" using lead lead_pos_iff[OF il] by simp
  moreover have "trail_ok (drop (i + length p) s)"
    using tr unfolding trail_ok_def take1_eq by blast
  ultimately show "\<exists>pre rest. s = pre @ p @ rest \<and> lead_ok pre \<and> trail_ok rest"
    using split by blast
next
  assume "\<exists>pre rest. s = pre @ p @ rest \<and> lead_ok pre \<and> trail_ok rest"
  then obtain pre rest where s: "s = pre @ p @ rest" and l: "lead_ok pre" and t: "trail_ok rest"
    by blast
  let ?i = "length pre"
  have il: "?i \<le> length s" using s by simp
  have tk: "take ?i s = pre" using s by simp
  have lit: "take (length p) (drop ?i s) = p" using s by simp
  have dr: "drop (?i + length p) s = rest" using s by simp
  have "?i = 0 \<or> (\<exists>k. k \<le> length (takeWhile (\<lambda>c. c \<noteq> NEWLINE) s)
                     \<and> take (Suc 0) (drop k s) = [PLUS] \<and> ?i = Suc k)"
    using lead_pos_iff[OF il] l tk by simp
  moreover have "take (Suc 0) (drop (?i + length p) s) = [PLUS] \<or> drop (?i + length p) s = []
             \<or> drop (?i + length p) s = [NEWLINE]"
    using t unfolding dr trail_ok_def take1_eq by blast
  ultimately show "matched p s"
    unfolding matched_pos using lit by blast
qed

lemma matched_anchored:
  assumes "NEWLINE \<notin> set s"
  shows "matched p s \<longleftrightarrow> anchored p s"
proof -
  have "lead_ok pre \<longleftrightarrow> (pre = [] \<or> last pre = PLUS)" if "s = pre @ p @ rest" for pre rest
  proof -
    have "NEWLINE \<notin> set pre" using assms that by simp
    then show ?thesis unfolding lead_ok_def
      by (cases pre rule: rev_cases) auto
  qed
  moreover have "trail_ok rest \<longleftrightarrow> (rest = [] \<or> hd rest = PLUS)" if "s = pre @ p @ rest" for pre rest
  proof -
    have "NEWLINE \<notin> set rest" using assms that by simp
    then show ?thesis unfolding trail_ok_def
      by (cases rest) auto
  qed
  ultimately show ?thesis unfolding matched_split anchored_def by blast
qed

text \<open>
  C2 (as amended).  For a joined signature without a line feed, \<open>matched\<close> holds exactly
  when the pattern occurs in it starting at the beginning or right after a \<open>+\<close> and
  ending at the end or right before a \<open>+\<close>, compared code point by code point.  The
  pattern \<open>VV\<close> does not match \<open>VVX/VV+EF/EF\<close>; the pattern \<open>VVX/VV\<close> matches it at
  the start of the string.
\<close>

theorem matched_anchored_boundaries:
  "(NEWLINE \<notin> set s \<longrightarrow> matched p s = anchored p s)
   \<and> \<not> matched (str ''VV'') (str ''VVX/VV+EF/EF'')
   \<and> matched (str ''VVX/VV'') (str ''VVX/VV+EF/EF'')"
proof (intro conjI impI)
  assume "NEWLINE \<notin> set s"
  then show "matched p s = anchored p s" by (rule matched_anchored)
next
  show "\<not> matched (str ''VV'') (str ''VVX/VV+EF/EF'')"
    by (simp add: matched_def re_match_def str_def PLUS_def NEWLINE_def)
next
  show "matched (str ''VVX/VV'') (str ''VVX/VV+EF/EF'')"
    by (simp add: matched_def re_match_def str_def PLUS_def NEWLINE_def)
qed

theorem matched_anchored_boundaries_witness:
  "NEWLINE \<notin> set (str ''ha/VV+da/EF'')
   \<and> matched (str ''da/EF'') (str ''ha/VV+da/EF'')
   \<and> anchored (str ''da/EF'') (str ''ha/VV+da/EF'')"
proof -
  have n: "NEWLINE \<notin> set (str ''ha/VV+da/EF'')"
    by (simp add: str_def NEWLINE_def)
  have m: "matched (str ''da/EF'') (str ''ha/VV+da/EF'')"
    by (simp add: matched_def re_match_def str_def PLUS_def NEWLINE_def)
  from matched_anchored_boundaries [of "str ''ha/VV+da/EF''" "str ''da/EF''"] n m
  show ?thesis by blast
qed

text \<open>
  The claim as stated fails twice: \<open>VV/VV\<close> does not occur in \<open>VVX/VV+EF/EF\<close> at
  all, so it does not match; and when a line feed stands in front of the \<open>+\<close>, the
  pattern behind the \<open>+\<close> is anchored but \<open>.*\<close> cannot cross the line feed.
\<close>

theorem matched_anchored_counterexample:
  "\<not> matched (str ''VV/VV'') (str ''VVX/VV+EF/EF'')
   \<and> anchored (str ''b'') [97, NEWLINE, PLUS, 98]
   \<and> \<not> matched (str ''b'') [97, NEWLINE, PLUS, 98]"
proof (intro conjI)
  show "\<not> matched (str ''VV/VV'') (str ''VVX/VV+EF/EF'')"
    by (simp add: matched_def re_match_def str_def PLUS_def NEWLINE_def)
next
  have "[97, NEWLINE, PLUS, 98] = [97, NEWLINE, PLUS] @ str ''b'' @ []"
    by (simp add: str_def)
  then show "anchored (str ''b'') [97, NEWLINE, PLUS, 98]"
    unfolding anchored_def by (metis last.simps list.distinct(1))
next
  show "\<not> matched (str ''b'') [97, NEWLINE, PLUS, 98]"
    by (simp add: matched_def re_match_def str_def PLUS_def NEWLINE_def)
qed

section \<open>Outcomes of a call\<close>

lemmas styler_defs = Styler_call_def styler_start_def and_then_def clear_def preprocess_def
      analyze_def check_def log_def conjugate_def abbreviate_def apply_irregulars_def

lemma Styler_call_khaiii_fail:
  assumes "khaiii (preprocess_text snt) = None"
  shows "Styler_call T khaiii st snt lsn env = (Inl KhaiiiExcept, styler_start st snt lsn env)"
  using assms by (simp add: styler_defs)

lemma Styler_call_check_fail:
  assumes "khaiii (preprocess_text snt) = Some toks"
    and "check_tokens (HONORIFICS T) toks = Some e"
  shows "Styler_call T khaiii st snt lsn env =
           (Inl e, (styler_start st snt lsn env)\<lparr>out := Tokens toks\<rparr>)"
  using assms by (simp add: styler_defs)

lemma Styler_call_listener_fail:
  assumes "khaiii (preprocess_text snt) = Some toks"
    and "check_tokens (HONORIFICS T) toks = None"
    and "RULES T lsn = None"
  shows "Styler_call T khaiii st snt lsn env =
           (Inl (KeyError (StrKey lsn)),
            (styler_start st snt lsn env)\<lparr>out := Tokens toks, logs := [Tokens toks]\<rparr>)"
  using assms by (simp add: styler_defs)

lemma Styler_call_environ_fail:
  assumes "khaiii (preprocess_text snt) = Some toks"
    and "check_tokens (HONORIFICS T) toks = None"
    and "RULES T lsn = Some by_environ"
    and "by_environ env = None"
  shows "Styler_call T khaiii st snt lsn env =
           (Inl (KeyError (StrKey env)),
            (styler_start st snt lsn env)\<lparr>out := Tokens toks, logs := [Tokens toks]\<rparr>)"
  using assms by (simp add: styler_defs)

lemma Styler_call_conjugate_fail:
  assumes "khaiii (preprocess_text snt) = Some toks"
    and "check_tokens (HONORIFICS T) toks = None"
    and "RULES T lsn = Some by_environ"
    and "by_environ env = Some rc"
    and "conjugate_tokens (HONORIFICS T) (politeness rc) (lex2morphs toks) [] {} = (Inl e, h)"
  shows "Styler_call T khaiii st snt lsn env =
           (Inl e, (styler_start st snt lsn env)
                    \<lparr>out := Tokens toks, logs := [Tokens toks], history_conjugations := h\<rparr>)"
  using assms by (simp add: styler_defs)

lemma Styler_call_ok:
  assumes "khaiii (preprocess_text snt) = Some toks"
    and "check_tokens (HONORIFICS T) toks = None"
    and "RULES T lsn = Some by_environ"
    and "by_environ env = Some rc"
    and "conjugate_tokens (HONORIFICS T) (politeness rc) (lex2morphs toks) [] {} = (Inr ws, h)"
    and "substitute (ABBREVIATIONS T) (join [SPACE] ws) {} = (a, ha)"
    and "substitute (IRREGULARS T) a {} = (i, hi)"
  shows "Styler_call T khaiii st snt lsn env =
           (Inr (Text i),
            (styler_start st snt lsn env)
               \<lparr>out := Text i,
                logs := [Tokens toks, Text (join [SPACE] ws), Text a, Text i],
                history_conjugations := h, history_abbreviations := ha,
                history_irregulars := hi\<rparr>)"
  using assms by (simp add: styler_defs)

lemmas tuner_defs = Tuner_call_def steps_def tuner_start_def and_then_def t_clear_def
      t_preprocess_def analyze_morphemes_def t_log_def apply_honorifics_def
      apply_abbreviations_def t_apply_irregulars_def postprocess_def key_of_def

lemma Tuner_call_khaiii_fail:
  assumes "khaiii (tuner_preprocess_text snt) = None"
  shows "Tuner_call T khaiii st snt lsn vis = (Inl KhaiiiExcept, tuner_start st snt lsn vis)"
  using assms by (simp add: tuner_defs)

lemma Tuner_call_listener_fail:
  assumes "khaiii (tuner_preprocess_text snt) = Some toks"
    and "RULES T lsn = None"
  shows "Tuner_call T khaiii st snt lsn vis =
           (Inl (KeyError (StrKey lsn)),
            (tuner_start st snt lsn vis)\<lparr>t_out := Tokens toks, t_logs := [Tokens toks]\<rparr>)"
  using assms by (simp add: tuner_defs)

lemma Tuner_call_visibility_fail:
  assumes "khaiii (tuner_preprocess_text snt) = Some toks"
    and "RULES T lsn = Some by_visibility"
    and "by_visibility vis = None"
  shows "Tuner_call T khaiii st snt lsn vis =
           (Inl (KeyError (StrKey vis)),
            (tuner_start st snt lsn vis)\<lparr>t_out := Tokens toks, t_logs := [Tokens toks]\<rparr>)"
  using assms by (simp add: tuner_defs)

lemma Tuner_call_honorifics_fail:
  assumes "khaiii (tuner_preprocess_text snt) = Some toks"
    and "RULES T lsn = Some by_visibility"
    and "by_visibility vis = Some rc"
    and "tuner_tokens (HONORIFICS T) (politeness rc) (lex2morphs toks) [] {} = (Inl e, h)"
  shows "Tuner_call T khaiii st snt lsn vis =
           (Inl e, (tuner_start st snt lsn vis)
                    \<lparr>t_out := Tokens toks, t_logs := [Tokens toks], history_honorifics := h\<rparr>)"
  using assms by (simp add: tuner_defs)

lemma Tuner_call_ok:
  assumes "khaiii (tuner_preprocess_text snt) = Some toks"
    and "RULES T lsn = Some by_visibility"
    and "by_visibility vis = Some rc"
    and "tuner_tokens (HONORIFICS T) (politeness rc) (lex2morphs toks) [] {} = (Inr ws, h)"
    and "substitute (ABBREVIATIONS T) (join [SPACE] ws) {} = (a, ha)"
    and "substitute (IRREGULARS T) a {} = (i, hi)"
  shows "Tuner_call T khaiii st snt lsn vis =
           (Inr (Text (postprocess_text snt i)),
            (tuner_start st snt lsn vis)
               \<lparr>t_out := Text (postprocess_text snt i),
                t_logs := [Tokens toks, Text (join [SPACE] ws), Text a, Text i],
                history_honorifics := h, t_history_abbreviations := ha,
                t_history_irregulars := hi\<rparr>)"
  using assms by (simp add: tuner_defs)

text \<open>A call that returns went through every stage.\<close>

lemma Styler_call_returns:
  assumes "Styler_call T khaiii st snt lsn env = (Inr r, st')"
  obtains toks by_environ rc ws h where
    "khaiii (preprocess_text snt) = Some toks"
    "check_tokens (HONORIFICS T) toks = None"
    "RULES T lsn = Some by_environ"
    "by_environ env = Some rc"
    "conjugate_tokens (HONORIFICS T) (politeness rc) (lex2morphs toks) [] {} = (Inr ws, h)"
proof (cases "khaiii (preprocess_text snt)")
  case None
  with assms show ?thesis by (simp add: Styler_call_khaiii_fail)
next
  case k: (Some toks)
  show ?thesis
  proof (cases "check_tokens (HONORIFICS T) toks")
    case (Some e)
    with assms k show ?thesis by (simp add: Styler_call_check_fail)
  next
    case c: None
    show ?thesis
    proof (cases "RULES T lsn")
      case None
      with assms k c show ?thesis by (simp add: Styler_call_listener_fail)
    next
      case l: (Some by_environ)
      show ?thesis
      proof (cases "by_environ env")
        case None
        with assms k c l show ?thesis by (simp add: Styler_call_environ_fail)
      next
        case e: (Some rc)
        obtain x h where x: "conjugate_tokens (HONORIFICS T) (politeness rc) (lex2morphs toks) [] {} = (x, h)"
          by (cases "conjugate_tokens (HONORIFICS T) (politeness rc) (lex2morphs toks) [] {}")
        show ?thesis
        proof (cases x)
          case (Inl err)
          with assms k c l e x show ?thesis by (simp add: Styler_call_conjugate_fail)
        next
          case (Inr ws)
          with k c l e x that show ?thesis by blast
        qed
      qed
    qed
  qed
qed

lemma Tuner_call_returns:
  assumes "Tuner_call T khaiii st snt lsn vis = (Inr r, st')"
  obtains toks by_visibility rc ws h where
    "khaiii (tuner_preprocess_text snt) = Some toks"
    "RULES T lsn = Some by_visibility"
    "by_visibility vis = Some rc"
    "tuner_tokens (HONORIFICS T) (politeness rc) (lex2morphs toks) [] {} = (Inr ws, h)"
proof (cases "khaiii (tuner_preprocess_text snt)")
  case None
  with assms show ?thesis by (simp add: Tuner_call_khaiii_fail)
next
  case k: (Some toks)
  show ?thesis
  proof (cases "RULES T lsn")
    case None
    with assms k show ?thesis by (simp add: Tuner_call_listener_fail)
  next
    case l: (Some by_visibility)
    show ?thesis
    proof (cases "by_visibility vis")
      case None
      with assms k l show ?thesis by (simp add: Tuner_call_visibility_fail)
    next
      case e: (Some rc)
      obtain x h where x: "tuner_tokens (HONORIFICS T) (politeness rc) (lex2morphs toks) [] {} = (x, h)"
        by (cases "tuner_tokens (HONORIFICS T) (politeness rc) (lex2morphs toks) [] {}")
      show ?thesis
      proof (cases x)
        case (Inl err)
        with assms k l e x show ?thesis by (simp add: Tuner_call_honorifics_fail)
      next
        case (Inr ws)
        with k l e x that show ?thesis by blast
      qed
    qed
  qed
qed


section \<open>A concrete run of both pipelines\<close>

lemma ex_pre: "preprocess_text (str ''gada'') = str ''gada.''"
  by code_simp

lemma ex_tpre: "tuner_preprocess_text (str ''gada'') = str ''gada.''"
  by code_simp

lemma ex_check: "check_tokens (HONORIFICS ex_T) ex_toks = None"
  by code_simp

lemma ex_rules: "RULES ex_T (str ''friend'') = Some [str ''private'' \<mapsto> \<lparr>politeness = 2, reason = []\<rparr>]"
  by (simp add: ex_T_def)

lemma ex_conj: "conjugate_tokens (HONORIFICS ex_T) 2 (lex2morphs ex_toks) [] {}
    = (Inr [str ''gayo.''], {(str ''da/EF'', str ''yo/EF'')})"
  by code_simp

lemma ex_tconj: "tuner_tokens (HONORIFICS ex_T) 2 (lex2morphs ex_toks) [] {}
    = (Inr [str ''gayo.''], {(str ''da/EF'', str ''yo/EF'')})"
  by code_simp

lemma ex_abbr: "substitute (ABBREVIATIONS ex_T) (join [SPACE] [str ''gayo.'']) {}
    = (str ''gayoo.'', {(str ''yo'', str ''yoo'')})"
  by code_simp

lemma ex_irr: "substitute (IRREGULARS ex_T) (str ''gayoo.'') {} = (str ''gayoo!'', {(str ''.'', str ''!'')})"
  by code_simp

lemma ex_khaiii_pre: "ex_khaiii (preprocess_text (str ''gada'')) = Some ex_toks"
  by (simp add: ex_khaiii_def)

lemma ex_khaiii_tpre: "ex_khaiii (tuner_preprocess_text (str ''gada'')) = Some ex_toks"
  by (simp add: ex_khaiii_def)

lemma ex_env:
  "[str ''private'' \<mapsto> \<lparr>politeness = 2, reason = []\<rparr>] (str ''private'')
     = Some \<lparr>politeness = 2, reason = []\<rparr>"
  by simp

lemma ex_conj': "conjugate_tokens (HONORIFICS ex_T) (politeness \<lparr>politeness = 2, reason = []\<rparr>)
     (lex2morphs ex_toks) [] {} = (Inr [str ''gayo.''], {(str ''da/EF'', str ''yo/EF'')})"
  using ex_conj by simp

lemma ex_tconj': "tuner_tokens (HONORIFICS ex_T) (politeness \<lparr>politeness = 2, reason = []\<rparr>)
     (lex2morphs ex_toks) [] {} = (Inr [str ''gayo.''], {(str ''da/EF'', str ''yo/EF'')})"
  using ex_tconj by simp

lemma ex_Styler_call:
  "Styler_call ex_T ex_khaiii st (str ''gada'') (str ''friend'') (str ''private'') =
     (Inr (Text (str ''gayoo!'')),
      (styler_start st (str ''gada'') (str ''friend'') (str ''private''))
         \<lparr>out := Text (str ''gayoo!''),
          logs := [Tokens ex_toks, Text (join [SPACE] [str ''gayo.'']), Text (str ''gayoo.''),
                   Text (str ''gayoo!'')],
          history_conjugations := {(str ''da/EF'', str ''yo/EF'')},
          history_abbreviations := {(str ''yo'', str ''yoo'')},
          history_irregulars := {(str ''.'', str ''!'')}\<rparr>)"
  by (rule Styler_call_ok [where by_environ = "[str ''private'' \<mapsto> \<lparr>politeness = 2, reason = []\<rparr>]"
        and rc = "\<lparr>politeness = 2, reason = []\<rparr>"])
     (rule ex_khaiii_pre ex_check ex_rules ex_env ex_conj' ex_abbr ex_irr)+

lemma ex_Tuner_call:
  "Tuner_call ex_T ex_khaiii st (str ''gada'') (str ''friend'') (str ''private'') =
     (Inr (Text (postprocess_text (str ''gada'') (str ''gayoo!''))),
      (tuner_start st (str ''gada'') (str ''friend'') (str ''private''))
         \<lparr>t_out := Text (postprocess_text (str ''gada'') (str ''gayoo!'')),
          t_logs := [Tokens ex_toks, Text (join [SPACE] [str ''gayo.'']), Text (str ''gayoo.''),
                     Text (str ''gayoo!'')],
          history_honorifics := {(str ''da/EF'', str ''yo/EF'')},
          t_history_abbreviations := {(str ''yo'', str ''yoo'')},
          t_history_irregulars := {(str ''.'', str ''!'')}\<rparr>)"
  by (rule Tuner_call_ok [where by_visibility = "[str ''private'' \<mapsto> \<lparr>politeness = 2, reason = []\<rparr>]"
        and rc = "\<lparr>politeness = 2, reason = []\<rparr>"])
     (rule ex_khaiii_tpre ex_rules ex_env ex_tconj' ex_abbr ex_irr)+


section \<open>History of a run\<close>

text \<open>
  C7.  A call that returns leaves exactly four entries in the logs, in stage order: the
  analyzed tokens (logged after validation in \<open>Styler\<close>), the output of the conjugation
  stage, the output of the abbreviation stage and the output of the irregular stage.
  This holds for \<open>Styler.__call__\<close> and for \<open>Tuner.__call__\<close>, from any state of the
  instance.
\<close>

theorem logs_four_entries:
  "(Styler_call T khaiii st snt lsn env = (Inr r, st') \<longrightarrow>
      length (logs st') = 4 \<and>
      (\<exists>toks rc ws h.
         khaiii (preprocess_text snt) = Some toks \<and> rule_lookup T lsn env = Some rc
         \<and> conjugate_tokens (HONORIFICS T) (politeness rc) (lex2morphs toks) [] {} = (Inr ws, h)
         \<and> logs st' =
             [Tokens toks, Text (join [SPACE] ws),
              Text (fst (substitute (ABBREVIATIONS T) (join [SPACE] ws) {})),
              Text (fst (substitute (IRREGULARS T)
                     (fst (substitute (ABBREVIATIONS T) (join [SPACE] ws) {})) {}))]))
   \<and> (Tuner_call T khaiii tst snt lsn env = (Inr r', tst') \<longrightarrow>
      length (t_logs tst') = 4 \<and>
      (\<exists>toks rc ws h.
         khaiii (tuner_preprocess_text snt) = Some toks \<and> rule_lookup T lsn env = Some rc
         \<and> tuner_tokens (HONORIFICS T) (politeness rc) (lex2morphs toks) [] {} = (Inr ws, h)
         \<and> t_logs tst' =
             [Tokens toks, Text (join [SPACE] ws),
              Text (fst (substitute (ABBREVIATIONS T) (join [SPACE] ws) {})),
              Text (fst (substitute (IRREGULARS T)
                     (fst (substitute (ABBREVIATIONS T) (join [SPACE] ws) {})) {}))]))"
proof (intro conjI impI)
  assume call: "Styler_call T khaiii st snt lsn env = (Inr r, st')"
  then obtain toks by_environ rc ws h where
    k: "khaiii (preprocess_text snt) = Some toks"
    and c: "check_tokens (HONORIFICS T) toks = None"
    and l: "RULES T lsn = Some by_environ"
    and e: "by_environ env = Some rc"
    and x: "conjugate_tokens (HONORIFICS T) (politeness rc) (lex2morphs toks) [] {} = (Inr ws, h)"
    by (rule Styler_call_returns)
  have lg: "logs st' =
             [Tokens toks, Text (join [SPACE] ws),
              Text (fst (substitute (ABBREVIATIONS T) (join [SPACE] ws) {})),
              Text (fst (substitute (IRREGULARS T)
                     (fst (substitute (ABBREVIATIONS T) (join [SPACE] ws) {})) {}))]"
  proof -
    obtain a ha where a: "substitute (ABBREVIATIONS T) (join [SPACE] ws) {} = (a, ha)"
      by (cases "substitute (ABBREVIATIONS T) (join [SPACE] ws) {}")
    obtain i hi where i: "substitute (IRREGULARS T) a {} = (i, hi)"
      by (cases "substitute (IRREGULARS T) a {}")
    from call k c l e x a i show ?thesis
      by (auto simp add: Styler_call_ok)
  qed
  then show "length (logs st') = 4" by simp
  have "rule_lookup T lsn env = Some rc" using l e by (simp add: rule_lookup_def)
  with k x lg show "\<exists>toks rc ws h.
         khaiii (preprocess_text snt) = Some toks \<and> rule_lookup T lsn env = Some rc
         \<and> conjugate_tokens (HONORIFICS T) (politeness rc) (lex2morphs toks) [] {} = (Inr ws, h)
         \<and> logs st' =
             [Tokens toks, Text (join [SPACE] ws),
              Text (fst (substitute (ABBREVIATIONS T) (join [SPACE] ws) {})),
              Text (fst (substitute (IRREGULARS T)
                     (fst (substitute (ABBREVIATIONS T) (join [SPACE] ws) {})) {}))]"
    by blast
next
  assume call: "Tuner_call T khaiii tst snt lsn env = (Inr r', tst')"
  then obtain toks by_visibility rc ws h where
    k: "khaiii (tuner_preprocess_text snt) = Some toks"
    and l: "RULES T lsn = Some by_visibility"
    and e: "by_visibility env = Some rc"
    and x: "tuner_tokens (HONORIFICS T) (politeness rc) (lex2morphs toks) [] {} = (Inr ws, h)"
    by (rule Tuner_call_returns)
  have lg: "t_logs tst' =
             [Tokens toks, Text (join [SPACE] ws),
              Text (fst (substitute (ABBREVIATIONS T) (join [SPACE] ws) {})),
              Text (fst (substitute (IRREGULARS T)
                     (fst (substitute (ABBREVIATIONS T) (join [SPACE] ws) {})) {}))]"
  proof -
    obtain a ha where a: "substitute (ABBREVIATIONS T) (join [SPACE] ws) {} = (a, ha)"
      by (cases "substitute (ABBREVIATIONS T) (join [SPACE] ws) {}")
    obtain i hi where i: "substitute (IRREGULARS T) a {} = (i, hi)"
      by (cases "substitute (IRREGULARS T) a {}")
    from call k l e x a i show ?thesis
      by (auto simp add: Tuner_call_ok)
  qed
  then show "length (t_logs tst') = 4" by simp
  have "rule_lookup T lsn env = Some rc" using l e by (simp add: rule_lookup_def)
  with k x lg show "\<exists>toks rc ws h.
         khaiii (tuner_preprocess_text snt) = Some toks \<and> rule_lookup T lsn env = Some rc
         \<and> tuner_tokens (HONORIFICS T) (politeness rc) (lex2morphs toks) [] {} = (Inr ws, h)
         \<and> t_logs tst' =
             [Tokens toks, Text (join [SPACE] ws),
              Text (fst (substitute (ABBREVIATIONS T) (join [SPACE] ws) {})),
              Text (fst (substitute (IRREGULARS T)
                     (fst (substitute (ABBREVIATIONS T) (join [SPACE] ws) {})) {}))]"
    by blast
qed

theorem logs_four_entries_witness:
  "length (logs (snd (Styler_call ex_T ex_khaiii Styler_init (str ''gada'') (str ''friend'')
      (str ''private'')))) = 4
   \<and> length (t_logs (snd (Tuner_call ex_T ex_khaiii Tuner_init (str ''gada'') (str ''friend'')
      (str ''private'')))) = 4"
  using logs_four_entries [of ex_T ex_khaiii Styler_init "str ''gada''" "str ''friend''"
      "str ''private''" "Text (str ''gayoo!'')"
      "snd (Styler_call ex_T ex_khaiii Styler_init (str ''gada'') (str ''friend'') (str ''private''))"
      Tuner_init "Text (postprocess_text (str ''gada'') (str ''gayoo!''))"
      "snd (Tuner_call ex_T ex_khaiii Tuner_init (str ''gada'') (str ''friend'') (str ''private''))"]
  by (simp add: ex_Styler_call ex_Tuner_call)


section \<open>Determinism\<close>

lemma Styler_call_obs:
  "\<exists>res obs. \<forall>st. fst (Styler_call T khaiii st snt lsn env) = res
        \<and> styler_obs (snd (Styler_call T khaiii st snt lsn env)) = obs"
proof (cases "khaiii (preprocess_text snt)")
  case None
  then show ?thesis
    by (simp add: Styler_call_khaiii_fail styler_obs_def styler_start_def)
next
  case k: (Some toks)
  show ?thesis
  proof (cases "check_tokens (HONORIFICS T) toks")
    case (Some e)
    with k show ?thesis
      by (simp add: Styler_call_check_fail styler_obs_def styler_start_def)
  next
    case c: None
    show ?thesis
    proof (cases "RULES T lsn")
      case None
      with k c show ?thesis
        by (simp add: Styler_call_listener_fail styler_obs_def styler_start_def)
    next
      case l: (Some by_environ)
      show ?thesis
      proof (cases "by_environ env")
        case None
        with k c l show ?thesis
          by (simp add: Styler_call_environ_fail styler_obs_def styler_start_def)
      next
        case e: (Some rc)
        obtain x h where x: "conjugate_tokens (HONORIFICS T) (politeness rc) (lex2morphs toks) [] {} = (x, h)"
          by (cases "conjugate_tokens (HONORIFICS T) (politeness rc) (lex2morphs toks) [] {}")
        show ?thesis
        proof (cases x)
          case (Inl err)
          with k c l e x show ?thesis
            by (simp add: Styler_call_conjugate_fail styler_obs_def styler_start_def)
        next
          case (Inr ws)
          obtain a ha where a: "substitute (ABBREVIATIONS T) (join [SPACE] ws) {} = (a, ha)"
            by (cases "substitute (ABBREVIATIONS T) (join [SPACE] ws) {}")
          obtain i hi where i: "substitute (IRREGULARS T) a {} = (i, hi)"
            by (cases "substitute (IRREGULARS T) a {}")
          from k c l e x Inr a i show ?thesis
            by (simp add: Styler_call_ok styler_obs_def styler_start_def)
        qed
      qed
    qed
  qed
qed


text \<open>
  C8.  With the rule tables and the analyzer fixed, the result of a call (the returned
  string or the error) and what it leaves on the instance (output, logs and the three
  history sets) depend on the arguments only, not on the state the instance was in;
  so no earlier call on the same instance can influence them.
\<close>

theorem Styler_call_deterministic:
  "fst (Styler_call T khaiii st1 snt lsn env) = fst (Styler_call T khaiii st2 snt lsn env)
   \<and> styler_obs (snd (Styler_call T khaiii st1 snt lsn env))
       = styler_obs (snd (Styler_call T khaiii st2 snt lsn env))"
  using Styler_call_obs [of T khaiii snt lsn env] by metis

theorem Styler_call_deterministic_witness:
  "fst (Styler_call ex_T ex_khaiii Styler_init (str ''gada'') (str ''friend'') (str ''private''))
     = Inr (Text (str ''gayoo!''))
   \<and> fst (Styler_call ex_T ex_khaiii
            (snd (Styler_call ex_T ex_khaiii Styler_init (str ''ga'') (str ''boss'') (str ''public'')))
            (str ''gada'') (str ''friend'') (str ''private''))
     = Inr (Text (str ''gayoo!''))"
  using Styler_call_deterministic [of ex_T ex_khaiii Styler_init "str ''gada''" "str ''friend''"
      "str ''private''"
      "snd (Styler_call ex_T ex_khaiii Styler_init (str ''ga'') (str ''boss'') (str ''public''))"]
  by (simp add: ex_Styler_call)

section \<open>An unknown listener or environment\<close>

text \<open>
  C9.  When the pair (listener, environment) is absent from \<open>RULES\<close>, a call whose
  sentence passes validation fails with \<open>KeyError\<close> (the key is the listener when it is
  unknown, else the environment) at the moment the conjugation stage looks the politeness
  level up: the tokens have been logged, nothing has been substituted, and no string is
  returned.  \<open>Tuner\<close> has no validation and fails the same way for every analyzed
  sentence.
\<close>

theorem unknown_rule_key:
  assumes "rule_lookup T lsn env = None"
  shows "(khaiii (preprocess_text snt) = Some toks \<and> check_tokens (HONORIFICS T) toks = None \<longrightarrow>
            (\<exists>st'. Styler_call T khaiii st snt lsn env
                     = (Inl (KeyError (StrKey (if RULES T lsn = None then lsn else env))), st')
                 \<and> styler_obs st' = (Tokens toks, [Tokens toks], {}, {}, {})))
       \<and> (khaiii (tuner_preprocess_text snt) = Some toks' \<longrightarrow>
            (\<exists>tst'. Tuner_call T khaiii tst snt lsn env
                     = (Inl (KeyError (StrKey (if RULES T lsn = None then lsn else env))), tst')
                 \<and> t_out tst' = Tokens toks' \<and> t_logs tst' = [Tokens toks']
                 \<and> history_honorifics tst' = {} \<and> t_history_abbreviations tst' = {}
                 \<and> t_history_irregulars tst' = {}))"
proof (cases "RULES T lsn")
  case None
  then show ?thesis
    by (simp add: Styler_call_listener_fail Tuner_call_listener_fail styler_obs_def
        styler_start_def tuner_start_def)
next
  case (Some by_environ)
  with assms have "by_environ env = None" by (simp add: rule_lookup_def)
  with Some show ?thesis
    by (simp add: Styler_call_environ_fail Tuner_call_visibility_fail styler_obs_def
        styler_start_def tuner_start_def)
qed

theorem unknown_rule_key_witness:
  "rule_lookup ex_T (str ''boss'') (str ''private'') = None
   \<and> fst (Styler_call ex_T ex_khaiii Styler_init (str ''gada'') (str ''boss'') (str ''private''))
       = Inl (KeyError (StrKey (str ''boss'')))
   \<and> fst (Tuner_call ex_T ex_khaiii Tuner_init (str ''gada'') (str ''boss'') (str ''private''))
       = Inl (KeyError (StrKey (str ''boss'')))"
proof -
  have r: "RULES ex_T (str ''boss'') = None"
    by (simp add: ex_T_def str_def)
  then have a: "rule_lookup ex_T (str ''boss'') (str ''private'') = None"
    by (simp add: rule_lookup_def)
  from unknown_rule_key [OF a, of ex_khaiii "str ''gada''" ex_toks Styler_init ex_toks Tuner_init]
    r ex_khaiii_pre ex_khaiii_tpre ex_check a
  show ?thesis by auto
qed


section \<open>\<open>Tuner.postprocess\<close>\<close>

text \<open>
  C10.  A call of the legacy \<open>Tuner\<close> that returns gives the output of the irregular
  stage (the fourth log entry) unchanged when the input sentence ends with \<open>.\<close>, and
  without its last code point otherwise, whatever that code point is.
\<close>

theorem tuner_returns_postprocessed:
  assumes "Tuner_call T khaiii st snt lsn vis = (Inr r, st')"
  shows "\<exists>toks rc ws h irr.
           khaiii (tuner_preprocess_text snt) = Some toks \<and> rule_lookup T lsn vis = Some rc
           \<and> tuner_tokens (HONORIFICS T) (politeness rc) (lex2morphs toks) [] {} = (Inr ws, h)
           \<and> irr = fst (substitute (IRREGULARS T)
                         (fst (substitute (ABBREVIATIONS T) (join [SPACE] ws) {})) {})
           \<and> t_logs st' ! 3 = Text irr
           \<and> r = Text (if endswith snt [DOT] then irr else butlast irr)"
proof -
  from assms obtain toks by_visibility rc ws h where
    k: "khaiii (tuner_preprocess_text snt) = Some toks"
    and l: "RULES T lsn = Some by_visibility"
    and e: "by_visibility vis = Some rc"
    and x: "tuner_tokens (HONORIFICS T) (politeness rc) (lex2morphs toks) [] {} = (Inr ws, h)"
    by (rule Tuner_call_returns)
  obtain a ha where a: "substitute (ABBREVIATIONS T) (join [SPACE] ws) {} = (a, ha)"
    by (cases "substitute (ABBREVIATIONS T) (join [SPACE] ws) {}")
  obtain i hi where i: "substitute (IRREGULARS T) a {} = (i, hi)"
    by (cases "substitute (IRREGULARS T) a {}")
  from assms k l e x a i
  have "t_logs st' ! 3 = Text i" and "r = Text (postprocess_text snt i)"
    by (auto simp add: Tuner_call_ok)
  moreover have "rule_lookup T lsn vis = Some rc"
    using l e by (simp add: rule_lookup_def)
  moreover have "i = fst (substitute (IRREGULARS T)
                         (fst (substitute (ABBREVIATIONS T) (join [SPACE] ws) {})) {})"
    using a i by simp
  ultimately show ?thesis
    using k x unfolding postprocess_text_def by blast
qed

theorem tuner_returns_postprocessed_witness:
  "Tuner_call ex_T ex_khaiii Tuner_init (str ''gada'') (str ''friend'') (str ''private'')
     = (Inr (Text (str ''gayoo'')),
        snd (Tuner_call ex_T ex_khaiii Tuner_init (str ''gada'') (str ''friend'') (str ''private'')))
   \<and> t_logs (snd (Tuner_call ex_T ex_khaiii Tuner_init (str ''gada'') (str ''friend'')
        (str ''private''))) ! 3 = Text (str ''gayoo!'')
   \<and> \<not> endswith (str ''gada'') [DOT]"
proof -
  have p: "postprocess_text (str ''gada'') (str ''gayoo!'') = str ''gayoo''"
    by code_simp
  have c: "Tuner_call ex_T ex_khaiii Tuner_init (str ''gada'') (str ''friend'') (str ''private'')
     = (Inr (Text (str ''gayoo'')),
        snd (Tuner_call ex_T ex_khaiii Tuner_init (str ''gada'') (str ''friend'') (str ''private'')))"
    by (simp add: ex_Tuner_call p)
  have n: "\<not> endswith (str ''gada'') [DOT]" by code_simp
  from tuner_returns_postprocessed [OF c] c n show ?thesis
    by (auto simp add: ex_Tuner_call)
qed

section \<open>Preprocessing\<close>

lemma strip_decomp:
  "\<exists>a b. s = a @ strip s @ b \<and> list_all isspace a \<and> list_all isspace b"
proof -
  let ?t = "dropWhile isspace s"
  have 1: "s = takeWhile isspace s @ ?t" by simp
  have "?t = rev (takeWhile isspace (rev ?t) @ dropWhile isspace (rev ?t))"
    by (simp only: takeWhile_dropWhile_id rev_rev_ident)
  then have 2: "?t = strip s @ rev (takeWhile isspace (rev ?t))"
    by (simp only: rev_append strip_def)
  have 3: "list_all isspace (takeWhile isspace s)"
    by (simp add: list_all_iff) (metis set_takeWhileD)
  have 4: "list_all isspace (rev (takeWhile isspace (rev ?t)))"
    by (simp add: list_all_iff) (metis set_takeWhileD)
  from 1 2 have "s = takeWhile isspace s @ strip s @ rev (takeWhile isspace (rev ?t))"
    by metis
  with 3 4 show ?thesis by blast
qed

lemma strip_ends:
  assumes "strip s \<noteq> []"
  shows "\<not> isspace (hd (strip s)) \<and> \<not> isspace (last (strip s))"
proof -
  let ?t = "dropWhile isspace s"
  let ?u = "dropWhile isspace (rev ?t)"
  from assms have u: "?u \<noteq> []" by (simp add: strip_def)
  then have l: "\<not> isspace (hd ?u)" by (rule hd_dropWhile)
  have "last (strip s) = hd ?u" using u by (simp add: strip_def last_rev)
  with l have A: "\<not> isspace (last (strip s))" by simp
  have t: "?t \<noteq> []"
  proof
    assume e: "?t = []"
    show False using u unfolding e by simp
  qed
  then have h: "\<not> isspace (hd ?t)" by (rule hd_dropWhile)
  have "?t = rev (takeWhile isspace (rev ?t) @ ?u)"
    by (simp only: takeWhile_dropWhile_id rev_rev_ident)
  then have "?t = strip s @ rev (takeWhile isspace (rev ?t))"
    by (simp only: rev_append strip_def)
  then have "hd ?t = hd (strip s)" using assms by (metis hd_append2)
  with h A show ?thesis by simp
qed

text \<open>
  C4 (as amended).  \<open>Styler.preprocess\<close> trims the surrounding whitespace of every input
  sentence (what is cut off on both sides is whitespace, and what remains neither starts
  nor ends with whitespace) and appends \<open>.\<close> exactly when the trimmed text ends with none
  of \<open>.\<close>, \<open>?\<close>, \<open>!\<close>; otherwise the trimmed text is what the analyzer gets.  The
  legacy \<open>Tuner.preprocess\<close> does not trim, and appends \<open>.\<close> exactly when the sentence
  does not end with \<open>.\<close>.
\<close>

theorem preprocess_trims_and_punctuates:
  "preprocess_text snt =
     (if endswith (strip snt) [DOT] \<or> endswith (strip snt) [QUESTION]
         \<or> endswith (strip snt) [BANG]
      then strip snt else strip snt @ [DOT])
   \<and> (\<exists>a b. snt = a @ strip snt @ b \<and> list_all isspace a \<and> list_all isspace b)
   \<and> (strip snt \<noteq> [] \<longrightarrow> \<not> isspace (hd (strip snt)) \<and> \<not> isspace (last (strip snt)))
   \<and> tuner_preprocess_text snt = (if endswith snt [DOT] then snt else snt @ [DOT])"
  using strip_decomp [of snt] strip_ends [of snt]
  by (simp add: preprocess_text_def tuner_preprocess_text_def Let_def)

theorem preprocess_trims_and_punctuates_witness:
  "preprocess_text (str '' gada  '') = str ''gada.''
   \<and> preprocess_text (str ''gani? '') = str ''gani?''
   \<and> strip (str '' gada  '') \<noteq> []
   \<and> tuner_preprocess_text (str ''gada'') = str ''gada.''"
proof -
  have a: "strip (str '' gada  '') = str ''gada''" by code_simp
  have b: "strip (str ''gani? '') = str ''gani?''" by code_simp
  have c: "\<not> endswith (str ''gada'') [DOT] \<and> \<not> endswith (str ''gada'') [QUESTION]
           \<and> \<not> endswith (str ''gada'') [BANG]" by code_simp
  have d: "endswith (str ''gani?'') [QUESTION]" by code_simp
  have e: "str ''gada'' @ [DOT] = str ''gada.''" by code_simp
  have f: "str ''gada'' \<noteq> []" by code_simp
  from preprocess_trims_and_punctuates [of "str '' gada  ''"]
       preprocess_trims_and_punctuates [of "str ''gani? ''"]
       preprocess_trims_and_punctuates [of "str ''gada''"]
       a b c d e f
  show ?thesis by simp
qed

text \<open>
  The claim as stated fails on \<open>Tuner.preprocess\<close>: a sentence ending with \<open>?\<close> gets a
  \<open>.\<close> appended, and leading whitespace stays.
\<close>

theorem preprocess_counterexample:
  "tuner_preprocess_text (str ''gani?'') = str ''gani?.''
   \<and> strip (str ''gani?'') = str ''gani?''
   \<and> endswith (str ''gani?'') [QUESTION]
   \<and> tuner_preprocess_text (str '' gada.'') = str '' gada.''
   \<and> strip (str '' gada.'') = str ''gada.''"
  by code_simp


section \<open>Substring test and replacement\<close>

lemma str_in_iff: "str_in k t \<longleftrightarrow> (\<exists>a b. t = a @ k @ b)"
proof (induction t)
  case Nil
  then show ?case by auto
next
  case (Cons c cs)
  show ?case
  proof
    assume "str_in k (c # cs)"
    then consider "take (length k) (c # cs) = k" | "str_in k cs" by auto
    then show "\<exists>a b. c # cs = a @ k @ b"
    proof cases
      case 1
      then have "c # cs = [] @ k @ drop (length k) (c # cs)"
        by (metis append_Nil append_take_drop_id)
      then show ?thesis by blast
    next
      case 2
      with Cons.IH obtain a b where "cs = a @ k @ b" by blast
      then have "c # cs = (c # a) @ k @ b" by simp
      then show ?thesis by blast
    qed
  next
    assume "\<exists>a b. c # cs = a @ k @ b"
    then obtain a b where ab: "c # cs = a @ k @ b" by blast
    show "str_in k (c # cs)"
    proof (cases a)
      case Nil
      with ab have "take (length k) (c # cs) = k" by simp
      then show ?thesis by simp
    next
      case (Cons x a')
      with ab have "cs = a' @ k @ b" by simp
      with Cons.IH have "str_in k cs" by blast
      then show ?thesis by simp
    qed
  qed
qed

lemma str_in_prefix: "str_in v (v @ t)"
  unfolding str_in_iff by (metis append_Nil)

lemma str_in_Cons: "str_in v t \<Longrightarrow> str_in v (c # t)"
  by simp

lemma replace_scan_contains:
  "old \<noteq> [] \<Longrightarrow> str_in old t \<Longrightarrow> str_in new (replace_scan old new t)"
proof (induction old new t rule: replace_scan.induct)
  case (1 old new)
  then show ?case by simp
next
  case (2 old new c cs)
  show ?case
  proof (cases "take (length old) (c # cs) = old")
    case True
    with "2.prems" show ?thesis by (simp add: str_in_prefix del: str_in.simps)
  next
    case False
    with "2.prems" have "str_in old cs" by simp
    with "2.IH"(2) False "2.prems" have "str_in new (replace_scan old new cs)" by simp
    with False show ?thesis by simp
  qed
qed

lemma replace_contains: "str_in old t \<Longrightarrow> str_in new (replace t old new)"
  by (simp add: replace_def replace_scan_contains str_in_prefix del: str_in.simps)

section \<open>Cleanup stages\<close>

lemma substitute_spec:
  "substitute tab w h =
     (fst (spec_apply str_in tab w), h \<union> set (snd (spec_apply str_in tab w)))"
proof (induction tab arbitrary: w h)
  case Nil
  then show ?case by simp
next
  case (Cons kv tab)
  obtain k v where kv: "kv = (k, v)" by (cases kv)
  show ?case
  proof (cases "str_in k w")
    case True
    then show ?thesis
      unfolding kv by (simp add: Cons.IH case_prod_unfold)
  next
    case False
    then show ?thesis
      unfolding kv by (simp add: Cons.IH)
  qed
qed

lemma substitute_append:
  "substitute (tab @ [(k, v)]) w h =
     (case substitute tab w h of (t', h') \<Rightarrow>
        if str_in k t' then (replace t' k v, insert (k, v) h') else (t', h'))"
  by (induction tab w h rule: substitute.induct) auto


text \<open>
  C5 (as amended).  Each cleanup stage goes through its rule table in table order; a pair
  whose key occurs in the current text is applied (every occurrence replaced) and
  recorded in the history set of the stage, a pair whose key does not occur is neither
  applied nor recorded.  \<open>abbreviate\<close> works on the current output with \<open>ABBREVIATIONS\<close>,
  \<open>apply_irregulars\<close> on the current output with \<open>IRREGULARS\<close>.  If the key of the last
  rule occurs in the text that the rules before it leave, the output of the stage contains
  its replacement and the history set contains the pair; in particular when the greeting
  and its abbreviation are the only rule and the text contains the greeting.
\<close>

theorem cleanup_applies_rules_in_order:
  "substitute tab w h =
     (fst (spec_apply str_in tab w), h \<union> set (snd (spec_apply str_in tab w)))
   \<and> (out st = Text w \<longrightarrow>
        abbreviate T st =
          (None, st\<lparr>out := Text (fst (substitute (ABBREVIATIONS T) w (history_abbreviations st))),
                    history_abbreviations :=
                      snd (substitute (ABBREVIATIONS T) w (history_abbreviations st))\<rparr>)
        \<and> apply_irregulars T st =
          (None, st\<lparr>out := Text (fst (substitute (IRREGULARS T) w (history_irregulars st))),
                    history_irregulars :=
                      snd (substitute (IRREGULARS T) w (history_irregulars st))\<rparr>))
   \<and> (str_in k (fst (substitute tab w h)) \<longrightarrow>
        fst (substitute (tab @ [(k, v)]) w h) = replace (fst (substitute tab w h)) k v
        \<and> str_in v (fst (substitute (tab @ [(k, v)]) w h))
        \<and> snd (substitute (tab @ [(k, v)]) w h) = insert (k, v) (snd (substitute tab w h)))
   \<and> (\<not> str_in k (fst (substitute tab w h)) \<longrightarrow>
        substitute (tab @ [(k, v)]) w h = substitute tab w h)
   \<and> (str_in annyeonghaseyo w \<longrightarrow>
        str_in annyonghaseyo (fst (substitute [(annyeonghaseyo, annyonghaseyo)] w {}))
        \<and> snd (substitute [(annyeonghaseyo, annyonghaseyo)] w {})
            = {(annyeonghaseyo, annyonghaseyo)})"
proof (intro conjI impI)
  show "substitute tab w h =
     (fst (spec_apply str_in tab w), h \<union> set (snd (spec_apply str_in tab w)))"
    by (rule substitute_spec)
next
  assume "out st = Text w"
  then show "abbreviate T st =
          (None, st\<lparr>out := Text (fst (substitute (ABBREVIATIONS T) w (history_abbreviations st))),
                    history_abbreviations :=
                      snd (substitute (ABBREVIATIONS T) w (history_abbreviations st))\<rparr>)"
    by (simp add: abbreviate_def case_prod_unfold)
next
  assume "out st = Text w"
  then show "apply_irregulars T st =
          (None, st\<lparr>out := Text (fst (substitute (IRREGULARS T) w (history_irregulars st))),
                    history_irregulars :=
                      snd (substitute (IRREGULARS T) w (history_irregulars st))\<rparr>)"
    by (simp add: apply_irregulars_def case_prod_unfold)
next
  assume a: "str_in k (fst (substitute tab w h))"
  then show r: "fst (substitute (tab @ [(k, v)]) w h) = replace (fst (substitute tab w h)) k v"
    by (simp add: substitute_append case_prod_unfold)
  from a show "str_in v (fst (substitute (tab @ [(k, v)]) w h))"
    unfolding r by (rule replace_contains)
  from a show "snd (substitute (tab @ [(k, v)]) w h) = insert (k, v) (snd (substitute tab w h))"
    by (simp add: substitute_append case_prod_unfold)
next
  assume "\<not> str_in k (fst (substitute tab w h))"
  then show "substitute (tab @ [(k, v)]) w h = substitute tab w h"
    by (simp add: substitute_append case_prod_unfold)
next
  assume a: "str_in annyeonghaseyo w"
  then show "str_in annyonghaseyo (fst (substitute [(annyeonghaseyo, annyonghaseyo)] w {}))"
    by (simp add: replace_contains)
  from a show "snd (substitute [(annyeonghaseyo, annyonghaseyo)] w {})
            = {(annyeonghaseyo, annyonghaseyo)}"
    by simp
qed

theorem cleanup_applies_rules_in_order_witness:
  "str_in annyeonghaseyo (annyeonghaseyo @ str ''!'')
   \<and> substitute [(annyeonghaseyo, annyonghaseyo)] (annyeonghaseyo @ str ''!'') {}
       = (annyonghaseyo @ str ''!'', {(annyeonghaseyo, annyonghaseyo)})
   \<and> str_in annyonghaseyo (annyonghaseyo @ str ''!'')"
proof -
  have a: "str_in annyeonghaseyo (annyeonghaseyo @ str ''!'')"
    by (simp add: annyeonghaseyo_def)
  have b: "fst (substitute [] (annyeonghaseyo @ str ''!'') {}) = annyeonghaseyo @ str ''!''"
    by simp
  have c: "replace (annyeonghaseyo @ str ''!'') annyeonghaseyo annyonghaseyo
             = annyonghaseyo @ str ''!''"
    by (simp add: replace_def annyeonghaseyo_def annyonghaseyo_def str_def)
  from cleanup_applies_rules_in_order
         [of "[]" "annyeonghaseyo @ str ''!''" "{}" Styler_init ex_T annyeonghaseyo annyonghaseyo]
       a b c
  show ?thesis by (auto simp add: prod_eq_iff)
qed

text \<open>
  The last sentence of the claim fails when an earlier rule rewrites the key before its
  own rule is reached.
\<close>

theorem cleanup_counterexample:
  "str_in annyeonghaseyo annyeonghaseyo
   \<and> substitute [([50504, 45397], str ''x''), (annyeonghaseyo, annyonghaseyo)] annyeonghaseyo {}
       = (str ''x'' @ [54616, 49464, 50836], {([50504, 45397], str ''x'')})
   \<and> \<not> str_in annyonghaseyo (str ''x'' @ [54616, 49464, 50836])
   \<and> (annyeonghaseyo, annyonghaseyo) \<notin> {([50504, 45397], str ''x'')}"
  by (simp add: replace_def annyeonghaseyo_def annyonghaseyo_def str_def)


section \<open>The conjugation loops\<close>

lemma level_table_has_level:
  "level_table H pol tab \<longleftrightarrow> map fst tab = map fst H \<and> list_all (has_level H pol) tab"
  by (simp add: level_table_def)

lemma conjugate_patterns_spec:
  assumes "list_all (has_level H pol) tab"
  shows "conjugate_patterns H pol (map fst tab) w hist =
           (Inr (fst (spec_apply matched tab w)), hist \<union> set (snd (spec_apply matched tab w)))"
  using assms
proof (induction tab arbitrary: w hist)
  case Nil
  then show ?case by simp
next
  case (Cons ph tab)
  obtain p h where ph: "ph = (p, h)" by (cases ph)
  from Cons.prems ph have hl: "has_level H pol (p, h)" and rest: "list_all (has_level H pol) tab"
    by simp_all
  from hl obtain levels where lv: "map_of H p = Some levels" "levels pol = Some h"
    by (auto simp: has_level_def split: option.splits)
  show ?case
  proof (cases "matched p w")
    case True
    with lv Cons.IH [OF rest] show ?thesis
      unfolding ph by (simp add: case_prod_unfold)
  next
    case False
    with Cons.IH [OF rest] show ?thesis
      unfolding ph by simp
  qed
qed

lemma tuner_patterns_spec:
  assumes "list_all (has_level H pol) tab"
  shows "tuner_patterns H pol (map fst tab) w hist = (Inr (replace_each tab w), hist \<union> set tab)"
  using assms
proof (induction tab arbitrary: w hist)
  case Nil
  then show ?case by simp
next
  case (Cons ph tab)
  obtain p h where ph: "ph = (p, h)" by (cases ph)
  from Cons.prems ph have hl: "has_level H pol (p, h)" and rest: "list_all (has_level H pol) tab"
    by simp_all
  from hl obtain levels where lv: "map_of H p = Some levels" "levels pol = Some h"
    by (auto simp: has_level_def split: option.splits)
  with Cons.IH [OF rest] show ?case
    unfolding ph by simp
qed

lemma conjugate_token_spec:
  assumes "level_table H pol tab"
  shows "conjugate_token H pol (lx, ms) hist =
           (Inr (emit lx ms (fst (spec_apply matched tab (join [PLUS] ms)))),
            hist \<union> set (snd (spec_apply matched tab (join [PLUS] ms))))"
proof -
  from assms have "map fst H = map fst tab" and "list_all (has_level H pol) tab"
    by (simp_all add: level_table_has_level)
  then show ?thesis
    by (simp add: conjugate_token_def conjugate_patterns_spec emit_def Let_def)
qed

lemma conjugate_tokens_spec:
  assumes "level_table H pol tab"
  shows "conjugate_tokens H pol lms acc hist =
           (Inr (acc @ map (\<lambda>lm. emit (fst lm) (snd lm)
                               (fst (spec_apply matched tab (join [PLUS] (snd lm))))) lms),
            hist \<union> (\<Union>lm\<in>set lms. set (snd (spec_apply matched tab (join [PLUS] (snd lm))))))"
proof (induction lms arbitrary: acc hist)
  case Nil
  then show ?case by simp
next
  case (Cons lm lms)
  obtain lx ms where lm: "lm = (lx, ms)" by (cases lm)
  show ?case
    unfolding lm
    by (simp add: conjugate_token_spec [OF assms] Cons.IH Un_assoc)
qed

lemma tuner_token_spec:
  assumes "level_table H pol tab"
  shows "tuner_token H pol (lx, ms) hist =
           (if set (substrings ms) \<inter> set (map fst H) \<noteq> {}
            then (Inr (surface (split (replace_each tab (join [PLUS] ms)) PLUS)), hist \<union> set tab)
            else (Inr lx, hist))"
proof -
  from assms have "map fst H = map fst tab" and "list_all (has_level H pol) tab"
    by (simp_all add: level_table_has_level)
  then show ?thesis
    by (simp add: tuner_token_def tuner_patterns_spec)
qed


text \<open>
  C1 (as amended).  Let \<open>tab\<close> list the keys of \<open>HONORIFICS\<close> in table order, each with its
  replacement for the politeness level.  In \<open>Styler.conjugate\<close>, for every token, the
  loop over the keys is the pass of the specification over \<open>tab\<close> with the test
  \<open>matched\<close>, started on the joined signature: every key that matches the current working
  string is replaced in it as a literal substring, later keys see the string so far, and
  the history set grows by exactly the applied pairs, over all tokens.  In the legacy
  \<open>Tuner.apply_honorifics\<close> no key is tested: for a token of which some contiguous span
  of morphemes is a key, every key is replaced in table order and every pair of \<open>tab\<close>
  is recorded; for any other token nothing is replaced or recorded.
\<close>

theorem conjugation_applies_matching_keys:
  assumes "level_table H pol tab"
  shows "conjugate_patterns H pol (map fst H) sg hist =
           (Inr (fst (spec_apply matched tab sg)), hist \<union> set (snd (spec_apply matched tab sg)))
       \<and> conjugate_tokens H pol lms [] hist =
           (Inr (map (\<lambda>lm. emit (fst lm) (snd lm)
                        (fst (spec_apply matched tab (join [PLUS] (snd lm))))) lms),
            hist \<union> (\<Union>lm\<in>set lms. set (snd (spec_apply matched tab (join [PLUS] (snd lm))))))
       \<and> tuner_patterns H pol (map fst H) sg hist = (Inr (replace_each tab sg), hist \<union> set tab)
       \<and> tuner_token H pol (lx, ms) hist =
           (if set (substrings ms) \<inter> set (map fst H) \<noteq> {}
            then (Inr (surface (split (replace_each tab (join [PLUS] ms)) PLUS)), hist \<union> set tab)
            else (Inr lx, hist))"
proof -
  from assms have k: "map fst H = map fst tab" and l: "list_all (has_level H pol) tab"
    by (simp_all add: level_table_has_level)
  have "conjugate_patterns H pol (map fst H) sg hist =
           (Inr (fst (spec_apply matched tab sg)), hist \<union> set (snd (spec_apply matched tab sg)))"
    unfolding k by (rule conjugate_patterns_spec [OF l])
  moreover have "conjugate_tokens H pol lms [] hist =
           (Inr (map (\<lambda>lm. emit (fst lm) (snd lm)
                        (fst (spec_apply matched tab (join [PLUS] (snd lm))))) lms),
            hist \<union> (\<Union>lm\<in>set lms. set (snd (spec_apply matched tab (join [PLUS] (snd lm))))))"
    using conjugate_tokens_spec [OF assms, of lms "[]" hist] by simp
  moreover have "tuner_patterns H pol (map fst H) sg hist = (Inr (replace_each tab sg), hist \<union> set tab)"
    unfolding k by (rule tuner_patterns_spec [OF l])
  moreover note tuner_token_spec [OF assms, of lx ms hist]
  ultimately show ?thesis by blast
qed

theorem conjugation_applies_matching_keys_witness:
  "level_table ex_H2 1 [(str ''da/EF'', str ''yo/EF''), (str ''ni/EF'', str ''nayo/EF'')]
   \<and> conjugate_patterns ex_H2 1 (map fst ex_H2) (str ''ga/VV+da/EF'') {}
       = (Inr (str ''ga/VV+yo/EF''), {(str ''da/EF'', str ''yo/EF'')})
   \<and> tuner_patterns ex_H2 1 (map fst ex_H2) (str ''ga/VV+da/EF'') {}
       = (Inr (str ''ga/VV+yo/EF''),
          {(str ''da/EF'', str ''yo/EF''), (str ''ni/EF'', str ''nayo/EF'')})"
proof -
  have a: "level_table ex_H2 1 [(str ''da/EF'', str ''yo/EF''), (str ''ni/EF'', str ''nayo/EF'')]"
    by code_simp
  have b: "spec_apply matched [(str ''da/EF'', str ''yo/EF''), (str ''ni/EF'', str ''nayo/EF'')]
             (str ''ga/VV+da/EF'') = (str ''ga/VV+yo/EF'', [(str ''da/EF'', str ''yo/EF'')])"
    by code_simp
  have c: "replace_each [(str ''da/EF'', str ''yo/EF''), (str ''ni/EF'', str ''nayo/EF'')]
             (str ''ga/VV+da/EF'') = str ''ga/VV+yo/EF''"
    by code_simp
  from conjugation_applies_matching_keys [OF a, of "str ''ga/VV+da/EF''" "{}" "[]" "[]" "[]"] a b c
  show ?thesis by simp
qed

text \<open>
  The claim as stated fails on \<open>Tuner.apply_honorifics\<close>: for a token with a span that
  is a key, it records the pair of every key of the table, also of a key that neither
  matches nor occurs in the signature; \<open>Styler.conjugate\<close> records the applied pair only.
\<close>

theorem conjugation_counterexample:
  "tuner_token ex_H2 1 (str ''gada'', [str ''ga/VV'', str ''da/EF'']) {}
     = (Inr (str ''gayo''), {(str ''da/EF'', str ''yo/EF''), (str ''ni/EF'', str ''nayo/EF'')})
   \<and> \<not> matched (str ''ni/EF'') (join [PLUS] [str ''ga/VV'', str ''da/EF''])
   \<and> \<not> str_in (str ''ni/EF'') (join [PLUS] [str ''ga/VV'', str ''da/EF''])
   \<and> conjugate_token ex_H2 1 (str ''gada'', [str ''ga/VV'', str ''da/EF'']) {}
     = (Inr (str ''gayo''), {(str ''da/EF'', str ''yo/EF'')})"
  by code_simp


section \<open>Tokens that no key matches\<close>

lemma split_no_sep: "c \<notin> set m \<Longrightarrow> split m c = [m]"
  by (induction m) auto

lemma split_sep: "c \<notin> set m \<Longrightarrow> split (m @ c # rest) c = m # split rest c"
  by (induction m) auto

lemma split_join:
  assumes "ms \<noteq> []" and "\<forall>m\<in>set ms. c \<notin> set m"
  shows "split (join [c] ms) c = ms"
  using assms
proof (induction ms)
  case Nil
  then show ?case by simp
next
  case (Cons m ms)
  show ?case
  proof (cases ms)
    case Nil
    with Cons.prems show ?thesis by (simp add: split_no_sep)
  next
    case (Cons y ys)
    with Cons.IH Cons.prems have ih: "split (join [c] (y # ys)) c = y # ys" by simp
    from Cons.prems have "c \<notin> set m" by simp
    then have "split (m @ c # join [c] (y # ys)) c = m # split (join [c] (y # ys)) c"
      by (rule split_sep)
    with ih Cons show ?thesis by simp
  qed
qed

lemma surface_split_join:
  assumes "\<forall>m\<in>set ms. PLUS \<notin> set m"
  shows "surface (split (join [PLUS] ms) PLUS) = surface ms"
proof (cases ms)
  case Nil
  then show ?thesis by (simp add: surface_def)
next
  case (Cons a list)
  then have "ms \<noteq> []" by simp
  then have "split (join [PLUS] ms) PLUS = ms" using assms by (rule split_join)
  then show ?thesis by simp
qed

lemma conjugate_patterns_no_match:
  "\<forall>p\<in>set ps. \<not> matched p w \<Longrightarrow> conjugate_patterns H pol ps w hist = (Inr w, hist)"
  by (induction ps) auto

text \<open>
  When no key matches any token and no rendered morpheme contains a \<open>+\<close>, the
  conjugation stage gives back the lexical forms and records nothing.
\<close>

lemma conjugate_no_match_lex:
  assumes "\<forall>t\<in>set toks. \<forall>p\<in>set (map fst H). \<not> matched p (signature t)"
    and "\<forall>t\<in>set toks. \<forall>m\<in>set (morphs t). PLUS \<notin> set (morph_str m)"
  shows "conjugate_tokens H pol (lex2morphs toks) acc hist = (Inr (acc @ map lex toks), hist)"
  using assms
proof (induction toks arbitrary: acc)
  case Nil
  then show ?case by (simp add: lex2morphs_def)
next
  case (Cons t toks)
  from Cons.prems have m: "\<forall>p\<in>set (map fst H). \<not> matched p (join [PLUS] (map morph_str (morphs t)))"
    by (simp add: signature_def)
  from Cons.prems have p: "\<forall>m\<in>set (map morph_str (morphs t)). PLUS \<notin> set m"
    by simp
  have tok: "conjugate_token H pol (lex t, map morph_str (morphs t)) hist = (Inr (lex t), hist)"
    by (simp add: conjugate_token_def conjugate_patterns_no_match [OF m]
        surface_split_join [OF p] Let_def)
  have rest: "conjugate_tokens H pol (lex2morphs toks) (acc @ [lex t]) hist
                = (Inr ((acc @ [lex t]) @ map lex toks), hist)"
    using Cons.prems by (intro Cons.IH) simp_all
  have "lex2morphs (t # toks) = (lex t, map morph_str (morphs t)) # lex2morphs toks"
    by (simp add: lex2morphs_def)
  then show ?case using tok rest by simp
qed

lemma tuner_no_span_lex:
  assumes "\<forall>t\<in>set toks. set (substrings (map morph_str (morphs t))) \<inter> set (map fst H) = {}"
  shows "tuner_tokens H pol (lex2morphs toks) acc hist = (Inr (acc @ map lex toks), hist)"
  using assms
proof (induction toks arbitrary: acc)
  case Nil
  then show ?case by (simp add: lex2morphs_def)
next
  case (Cons t toks)
  have tok: "tuner_token H pol (lex t, map morph_str (morphs t)) hist = (Inr (lex t), hist)"
    using Cons.prems by (simp add: tuner_token_def)
  have rest: "tuner_tokens H pol (lex2morphs toks) (acc @ [lex t]) hist
                = (Inr ((acc @ [lex t]) @ map lex toks), hist)"
    using Cons.prems by (intro Cons.IH) simp_all
  have "lex2morphs (t # toks) = (lex t, map morph_str (morphs t)) # lex2morphs toks"
    by (simp add: lex2morphs_def)
  then show ?case using tok rest by simp
qed

lemma plus_run:
  "Styler_call ex_T (\<lambda>w. Some (plus_tok # ex_toks)) Styler_init (str ''1+1 gada'') (str ''friend'')
       (str ''private'') =
     (Inr (Text (str ''11 gayoo!'')),
      (styler_start Styler_init (str ''1+1 gada'') (str ''friend'') (str ''private''))
         \<lparr>out := Text (str ''11 gayoo!''),
          logs := [Tokens (plus_tok # ex_toks), Text (join [SPACE] [str ''11'', str ''gayo.'']),
                   Text (str ''11 gayoo.''), Text (str ''11 gayoo!'')],
          history_conjugations := {(str ''da/EF'', str ''yo/EF'')},
          history_abbreviations := {(str ''yo'', str ''yoo'')},
          history_irregulars := {(str ''.'', str ''!'')}\<rparr>)"
proof (rule Styler_call_ok [where by_environ = "[str ''private'' \<mapsto> \<lparr>politeness = 2, reason = []\<rparr>]"
        and rc = "\<lparr>politeness = 2, reason = []\<rparr>"])
  show "(\<lambda>w. Some (plus_tok # ex_toks)) (preprocess_text (str ''1+1 gada'')) = Some (plus_tok # ex_toks)"
    by simp
  show "check_tokens (HONORIFICS ex_T) (plus_tok # ex_toks) = None"
    by code_simp
  show "RULES ex_T (str ''friend'') = Some [str ''private'' \<mapsto> \<lparr>politeness = 2, reason = []\<rparr>]"
    by (rule ex_rules)
  show "[str ''private'' \<mapsto> \<lparr>politeness = 2, reason = []\<rparr>] (str ''private'')
          = Some \<lparr>politeness = 2, reason = []\<rparr>"
    by (rule ex_env)
  have "conjugate_tokens (HONORIFICS ex_T) 2 (lex2morphs (plus_tok # ex_toks)) [] {}
          = (Inr [str ''11'', str ''gayo.''], {(str ''da/EF'', str ''yo/EF'')})"
    by code_simp
  then show "conjugate_tokens (HONORIFICS ex_T) (politeness \<lparr>politeness = 2, reason = []\<rparr>)
          (lex2morphs (plus_tok # ex_toks)) [] {}
          = (Inr [str ''11'', str ''gayo.''], {(str ''da/EF'', str ''yo/EF'')})"
    by simp
  show "substitute (ABBREVIATIONS ex_T) (join [SPACE] [str ''11'', str ''gayo.'']) {}
          = (str ''11 gayoo.'', {(str ''yo'', str ''yoo'')})"
    by code_simp
  show "substitute (IRREGULARS ex_T) (str ''11 gayoo.'') {} = (str ''11 gayoo!'', {(str ''.'', str ''!'')})"
    by code_simp
qed

text \<open>
  C6.  The claim: when no key matches any token, the output of the conjugation stage is
  the lexical forms joined with single spaces.  \<open>Styler.conjugate\<close> breaks it for a token
  with a morpheme that contains \<open>+\<close>: no key matches \<open>1/SN++/SW+1/SN\<close>, but splitting
  the joined signature at \<open>+\<close> loses the surface \<open>+\<close>, the reconstruction \<open>11\<close> differs
  from the original surfaces \<open>1+1\<close>, and \<open>11\<close> is emitted instead of the lexical form.
  \<open>Tuner.apply_honorifics\<close> gives the lexical form for the same token, and a whole call
  of \<open>Styler\<close> on a sentence with this token returns the rewritten text.
\<close>

theorem conjugate_rewrites_plus_token:
  "map fst ex_H = [str ''da/EF'']
   \<and> \<not> matched (str ''da/EF'') (signature plus_tok)
   \<and> conjugate_tokens ex_H 2 (lex2morphs [plus_tok]) [] {} = (Inr [str ''11''], {})
   \<and> map lex [plus_tok] = [str ''1+1'']
   \<and> tuner_tokens ex_H 2 (lex2morphs [plus_tok]) [] {} = (Inr [str ''1+1''], {})
   \<and> fst (Styler_call ex_T (\<lambda>w. Some (plus_tok # ex_toks)) Styler_init (str ''1+1 gada'')
            (str ''friend'') (str ''private'')) = Inr (Text (str ''11 gayoo!''))"
proof (intro conjI)
  show "map fst ex_H = [str ''da/EF'']" by (simp add: ex_H_def)
  show "\<not> matched (str ''da/EF'') (signature plus_tok)" by code_simp
  show "conjugate_tokens ex_H 2 (lex2morphs [plus_tok]) [] {} = (Inr [str ''11''], {})"
    by code_simp
  show "map lex [plus_tok] = [str ''1+1'']" by (simp add: plus_tok_def)
  show "tuner_tokens ex_H 2 (lex2morphs [plus_tok]) [] {} = (Inr [str ''1+1''], {})"
    by code_simp
  show "fst (Styler_call ex_T (\<lambda>w. Some (plus_tok # ex_toks)) Styler_init (str ''1+1 gada'')
            (str ''friend'') (str ''private'')) = Inr (Text (str ''11 gayoo!''))"
    by (simp add: plus_run)
qed


section \<open>Validation\<close>

lemma join_mem: "x \<in> set xs \<Longrightarrow> \<exists>a b. join sep xs = a @ x @ b"
proof (induction sep xs rule: join.induct)
  case (1 sep)
  then show ?case by simp
next
  case (2 sep y)
  then have "join sep [y] = [] @ x @ []" by simp
  then show ?case by blast
next
  case (3 sep y z zs)
  show ?case
  proof (cases "x = y")
    case True
    then have "join sep (y # z # zs) = [] @ x @ (sep @ join sep (z # zs))" by simp
    then show ?thesis by blast
  next
    case False
    with "3.prems" have "x \<in> set (z # zs)" by simp
    with "3.IH" obtain a b where "join sep (z # zs) = a @ x @ b" by blast
    then have "join sep (y # z # zs) = (y @ sep @ a) @ x @ b" by simp
    then show ?thesis by blast
  qed
qed

lemma ef_tag_in_signature:
  assumes "m \<in> set (morphs t)" and "tag m = str ''EF''"
  shows "is_ef (signature t)"
proof -
  from assms(1) have "morph_str m \<in> set (map morph_str (morphs t))" by simp
  then obtain a b where "signature t = a @ morph_str m @ b"
    unfolding signature_def using join_mem by blast
  then have "signature t = (a @ mlex m @ [SLASH]) @ str ''EF'' @ b"
    using assms(2) by (simp add: morph_str_def)
  then show ?thesis unfolding is_ef_def str_in_iff by blast
qed

lemma check_efs_find:
  "check_efs H efs = map_option EFNotSupportedError (find (\<lambda>ef. \<not> supported H ef) efs)"
  by (induction efs) (simp_all add: supported_def)

lemma find_filter: "find Q (filter P xs) = find (\<lambda>x. P x \<and> Q x) xs"
  by (induction xs) simp_all

lemma check_tokens_find:
  "check_tokens H toks =
     (if list_all (\<lambda>t. \<not> is_ef (signature t)) toks
      then Some (EFNotIncludedError (join [BAR] (map signature toks)))
      else map_option EFNotSupportedError
             (find (\<lambda>sg. is_ef sg \<and> \<not> supported H sg) (map signature toks)))"
proof -
  have "filter is_ef (map signature toks) = [] \<longleftrightarrow> list_all (\<lambda>t. \<not> is_ef (signature t)) toks"
    by (simp add: filter_empty_conv list_all_iff)
  then show ?thesis
    unfolding check_tokens_def Let_def is_ef_def [symmetric, abs_def]
    by (simp add: check_efs_find find_filter)
qed

lemma tuner_patterns_error:
  "tuner_patterns H pol ps w h = (Inl e, h') \<Longrightarrow> \<exists>k. e = KeyError k"
  by (induction ps arbitrary: w h) (auto split: option.splits)

lemma tuner_token_error:
  "tuner_token H pol lm h = (Inl e, h') \<Longrightarrow> \<exists>k. e = KeyError k"
  by (cases lm) (auto simp: tuner_token_def split: if_splits prod.splits sum.splits
      dest: tuner_patterns_error)

lemma tuner_tokens_error:
  "tuner_tokens H pol lms acc h = (Inl e, h') \<Longrightarrow> \<exists>k. e = KeyError k"
proof (induction lms arbitrary: acc h)
  case Nil
  then show ?case by simp
next
  case (Cons lm lms)
  obtain r h1 where r: "tuner_token H pol lm h = (r, h1)" by (cases "tuner_token H pol lm h")
  show ?case
  proof (cases r)
    case (Inl e1)
    with r Cons.prems have "e = e1" by simp
    with r Inl show ?thesis using tuner_token_error by blast
  next
    case (Inr u)
    with r Cons.prems have "tuner_tokens H pol lms (acc @ [u]) h1 = (Inl e, h')" by simp
    then show ?thesis by (rule Cons.IH)
  qed
qed

lemma conjugate_patterns_error:
  "conjugate_patterns H pol ps w h = (Inl e, h') \<Longrightarrow> \<exists>k. e = KeyError k"
  by (induction ps arbitrary: w h) (auto split: option.splits if_splits)

lemma conjugate_token_error:
  "conjugate_token H pol lm h = (Inl e, h') \<Longrightarrow> \<exists>k. e = KeyError k"
  by (cases lm) (auto simp: conjugate_token_def Let_def split: prod.splits sum.splits
      dest: conjugate_patterns_error)

lemma conjugate_tokens_error:
  "conjugate_tokens H pol lms acc h = (Inl e, h') \<Longrightarrow> \<exists>k. e = KeyError k"
proof (induction lms arbitrary: acc h)
  case Nil
  then show ?case by simp
next
  case (Cons lm lms)
  obtain r h1 where r: "conjugate_token H pol lm h = (r, h1)"
    by (cases "conjugate_token H pol lm h")
  show ?case
  proof (cases r)
    case (Inl e1)
    with r Cons.prems have "e = e1" by simp
    with r Inl show ?thesis using conjugate_token_error by blast
  next
    case (Inr u)
    with r Cons.prems have "conjugate_tokens H pol lms (acc @ [u]) h1 = (Inl e, h')" by simp
    then show ?thesis by (rule Cons.IH)
  qed
qed

lemma Tuner_call_error:
  assumes "fst (Tuner_call T khaiii st snt lsn vis) = Inl e"
  shows "e = KhaiiiExcept \<or> (\<exists>k. e = KeyError k)"
proof (cases "khaiii (tuner_preprocess_text snt)")
  case None
  with assms show ?thesis by (auto simp add: Tuner_call_khaiii_fail)
next
  case k: (Some toks)
  show ?thesis
  proof (cases "RULES T lsn")
    case None
    with assms k show ?thesis by (auto simp add: Tuner_call_listener_fail)
  next
    case l: (Some by_visibility)
    show ?thesis
    proof (cases "by_visibility vis")
      case None
      with assms k l show ?thesis by (auto simp add: Tuner_call_visibility_fail)
    next
      case v: (Some rc)
      obtain x h where x: "tuner_tokens (HONORIFICS T) (politeness rc) (lex2morphs toks) [] {} = (x, h)"
        by (cases "tuner_tokens (HONORIFICS T) (politeness rc) (lex2morphs toks) [] {}")
      show ?thesis
      proof (cases x)
        case (Inl err)
        with assms k l v x have "e = err" by (simp add: Tuner_call_honorifics_fail)
        with x Inl show ?thesis using tuner_tokens_error by blast
      next
        case (Inr ws)
        obtain a ha where a: "substitute (ABBREVIATIONS T) (join [SPACE] ws) {} = (a, ha)"
          by (cases "substitute (ABBREVIATIONS T) (join [SPACE] ws) {}")
        obtain i hi where i: "substitute (IRREGULARS T) a {} = (i, hi)"
          by (cases "substitute (IRREGULARS T) a {}")
        from assms k l v x Inr a i show ?thesis by (simp add: Tuner_call_ok)
      qed
    qed
  qed
qed

lemma ef_tagged_is_ef: "ef_tagged t \<Longrightarrow> is_ef (signature t)"
  using ef_tag_in_signature by (auto simp: ef_tagged_def list_ex_iff)

lemma find_map_option: "find P (map f xs) = map_option f (find (\<lambda>x. P (f x)) xs)"
  by (induction xs) simp_all

lemma Styler_call_not_EFNotIncluded:
  assumes "khaiii (preprocess_text snt) = Some toks" and tagged: "list_ex ef_tagged toks"
  shows "fst (Styler_call T khaiii st snt lsn env) \<noteq> Inl (EFNotIncludedError x)"
proof -
  from tagged obtain t where "t \<in> set toks" "ef_tagged t"
    by (auto simp: list_ex_iff)
  then have n: "\<not> list_all (\<lambda>t. \<not> is_ef (signature t)) toks"
    using ef_tagged_is_ef by (auto simp: list_all_iff)
  show "fst (Styler_call T khaiii st snt lsn env) \<noteq> Inl (EFNotIncludedError x)"
  proof (cases "check_tokens (HONORIFICS T) toks")
    case None
    show ?thesis
    proof
      assume e: "fst (Styler_call T khaiii st snt lsn env) = Inl (EFNotIncludedError x)"
      show False
      proof (cases "RULES T lsn")
        case r: None
        with e assms None show False by (simp add: Styler_call_listener_fail)
      next
        case r: (Some by_environ)
        show False
        proof (cases "by_environ env")
          case v: None
          with e assms None r show False by (simp add: Styler_call_environ_fail)
        next
          case v: (Some rc)
          obtain y h where y: "conjugate_tokens (HONORIFICS T) (politeness rc) (lex2morphs toks) [] {} = (y, h)"
            by (cases "conjugate_tokens (HONORIFICS T) (politeness rc) (lex2morphs toks) [] {}")
          show False
          proof (cases y)
            case (Inl err)
            with e assms None r v y have "err = EFNotIncludedError x"
              by (simp add: Styler_call_conjugate_fail)
            with y Inl show False using conjugate_tokens_error by blast
          next
            case (Inr ws)
            obtain a ha where a: "substitute (ABBREVIATIONS T) (join [SPACE] ws) {} = (a, ha)"
              by (cases "substitute (ABBREVIATIONS T) (join [SPACE] ws) {}")
            obtain i hi where i: "substitute (IRREGULARS T) a {} = (i, hi)"
              by (cases "substitute (IRREGULARS T) a {}")
            from e assms None r v y Inr a i show False by (simp add: Styler_call_ok)
          qed
        qed
      qed
    qed
  next
    case (Some err)
    with n have "\<exists>sg. err = EFNotSupportedError sg"
      by (auto simp: check_tokens_find)
    with assms Some show ?thesis by (auto simp add: Styler_call_check_fail)
  qed
qed

text \<open>
  C3 (as amended).  In \<open>Styler\<close>, for analyzed tokens in which the text \<open>EF\<close> occurs in a
  joined signature only where the token has a morpheme tagged \<open>EF\<close>: when no token has a
  morpheme tagged \<open>EF\<close>, the call fails with \<open>EFNotIncludedError\<close> (carrying all
  signatures joined with a bar); when the signature of some token with a morpheme tagged
  \<open>EF\<close> is matched by no key, the call fails with \<open>EFNotSupportedError\<close> carrying the
  signature of the first such token.  In both cases nothing has been substituted: the logs
  and the three history sets are empty and the current output is still the tokens.  A
  sentence with a morpheme tagged \<open>EF\<close> never fails with \<open>EFNotIncludedError\<close>.  The
  legacy \<open>Tuner\<close> has no validation stage and never fails with either error.
\<close>

theorem validation_by_tag:
  assumes "khaiii (preprocess_text snt) = Some toks" and "ef_only_tagged toks"
  shows "(\<not> list_ex ef_tagged toks \<longrightarrow>
            Styler_call T khaiii st snt lsn env =
              (Inl (EFNotIncludedError (join [BAR] (map signature toks))),
               (styler_start st snt lsn env)\<lparr>out := Tokens toks\<rparr>))
       \<and> (list_ex (\<lambda>t. ef_tagged t \<and> \<not> supported (HONORIFICS T) (signature t)) toks \<longrightarrow>
            (\<exists>t. find (\<lambda>t. ef_tagged t \<and> \<not> supported (HONORIFICS T) (signature t)) toks = Some t
               \<and> Styler_call T khaiii st snt lsn env =
                   (Inl (EFNotSupportedError (signature t)),
                    (styler_start st snt lsn env)\<lparr>out := Tokens toks\<rparr>)))
       \<and> styler_obs ((styler_start st snt lsn env)\<lparr>out := Tokens toks\<rparr>) = (Tokens toks, [], {}, {}, {})
       \<and> (list_ex ef_tagged toks \<longrightarrow>
            (\<forall>x. fst (Styler_call T khaiii st snt lsn env) \<noteq> Inl (EFNotIncludedError x)))
       \<and> (\<forall>x. fst (Tuner_call T khaiii' tst snt' lsn env) \<noteq> Inl (EFNotIncludedError x)
             \<and> fst (Tuner_call T khaiii' tst snt' lsn env) \<noteq> Inl (EFNotSupportedError x))"
proof -
  have eq: "is_ef (signature t) = ef_tagged t" if "t \<in> set toks" for t
    using that assms(2) ef_tagged_is_ef by (auto simp: ef_only_tagged_def list_all_iff)
  have A: "list_all (\<lambda>t. \<not> is_ef (signature t)) toks \<longleftrightarrow> \<not> list_ex ef_tagged toks"
    using eq by (auto simp: list_all_iff list_ex_iff)
  have "find (\<lambda>t. is_ef (signature t) \<and> \<not> supported (HONORIFICS T) (signature t)) toks
          = find (\<lambda>t. ef_tagged t \<and> \<not> supported (HONORIFICS T) (signature t)) toks"
    by (rule find_cong) (auto simp: eq)
  then have B: "find (\<lambda>sg. is_ef sg \<and> \<not> supported (HONORIFICS T) sg) (map signature toks)
          = map_option signature
              (find (\<lambda>t. ef_tagged t \<and> \<not> supported (HONORIFICS T) (signature t)) toks)"
    by (simp add: find_map_option)
  have C: "check_tokens (HONORIFICS T) toks =
             (if \<not> list_ex ef_tagged toks
              then Some (EFNotIncludedError (join [BAR] (map signature toks)))
              else map_option (\<lambda>t. EFNotSupportedError (signature t))
                     (find (\<lambda>t. ef_tagged t \<and> \<not> supported (HONORIFICS T) (signature t)) toks))"
    unfolding check_tokens_find A B by (simp add: option.map_comp comp_def)
  show ?thesis
  proof (intro conjI impI allI)
    assume "\<not> list_ex ef_tagged toks"
    with C have "check_tokens (HONORIFICS T) toks
                   = Some (EFNotIncludedError (join [BAR] (map signature toks)))"
      by simp
    with assms(1) show "Styler_call T khaiii st snt lsn env =
              (Inl (EFNotIncludedError (join [BAR] (map signature toks))),
               (styler_start st snt lsn env)\<lparr>out := Tokens toks\<rparr>)"
      by (simp add: Styler_call_check_fail)
  next
    assume a: "list_ex (\<lambda>t. ef_tagged t \<and> \<not> supported (HONORIFICS T) (signature t)) toks"
    then have n: "list_ex ef_tagged toks"
      by (auto simp: list_ex_iff)
    from a have "\<exists>t\<in>set toks. ef_tagged t \<and> \<not> supported (HONORIFICS T) (signature t)"
      by (auto simp: list_ex_iff)
    then obtain t where
      f: "find (\<lambda>t. ef_tagged t \<and> \<not> supported (HONORIFICS T) (signature t)) toks = Some t"
      by (metis find_None_iff2 not_Some_eq)
    with n C have "check_tokens (HONORIFICS T) toks = Some (EFNotSupportedError (signature t))"
      by simp
    with assms(1) have "Styler_call T khaiii st snt lsn env =
                   (Inl (EFNotSupportedError (signature t)),
                    (styler_start st snt lsn env)\<lparr>out := Tokens toks\<rparr>)"
      by (simp add: Styler_call_check_fail)
    with f show "\<exists>t. find (\<lambda>t. ef_tagged t \<and> \<not> supported (HONORIFICS T) (signature t)) toks = Some t
               \<and> Styler_call T khaiii st snt lsn env =
                   (Inl (EFNotSupportedError (signature t)),
                    (styler_start st snt lsn env)\<lparr>out := Tokens toks\<rparr>)"
      by blast
  next
    show "styler_obs ((styler_start st snt lsn env)\<lparr>out := Tokens toks\<rparr>) = (Tokens toks, [], {}, {}, {})"
      by (simp add: styler_obs_def styler_start_def)
  next
    fix x
    assume "list_ex ef_tagged toks"
    with assms(1) show "fst (Styler_call T khaiii st snt lsn env) \<noteq> Inl (EFNotIncludedError x)"
      by (rule Styler_call_not_EFNotIncluded)
  next
    fix x
    show "fst (Tuner_call T khaiii' tst snt' lsn env) \<noteq> Inl (EFNotIncludedError x)"
      using Tuner_call_error [of T khaiii' tst snt' lsn env "EFNotIncludedError x"] by auto
    show "fst (Tuner_call T khaiii' tst snt' lsn env) \<noteq> Inl (EFNotSupportedError x)"
      using Tuner_call_error [of T khaiii' tst snt' lsn env "EFNotSupportedError x"] by auto
  qed
qed

theorem validation_by_tag_witness:
  "ef_only_tagged [noun_tok] \<and> \<not> list_ex ef_tagged [noun_tok]
   \<and> fst (Styler_call ex_T (\<lambda>w. Some [noun_tok]) Styler_init (str ''bap'') (str ''friend'')
            (str ''private'')) = Inl (EFNotIncludedError (str ''bap/NNG+./SF''))
   \<and> ef_only_tagged [unsup_tok]
   \<and> list_ex (\<lambda>t. ef_tagged t \<and> \<not> supported (HONORIFICS ex_T) (signature t)) [unsup_tok]
   \<and> fst (Styler_call ex_T (\<lambda>w. Some [unsup_tok]) Styler_init (str ''ganda'') (str ''friend'')
            (str ''private'')) = Inl (EFNotSupportedError (str ''ga/VV+nda/EF+./SF''))"
proof -
  have k1: "(\<lambda>w. Some [noun_tok]) (preprocess_text (str ''bap'')) = Some [noun_tok]" by simp
  have k2: "(\<lambda>w. Some [unsup_tok]) (preprocess_text (str ''ganda'')) = Some [unsup_tok]" by simp
  have h1: "ef_only_tagged [noun_tok]" by code_simp
  have h2: "ef_only_tagged [unsup_tok]" by code_simp
  have a: "\<not> list_ex ef_tagged [noun_tok]" by code_simp
  have j: "join [BAR] (map signature [noun_tok]) = str ''bap/NNG+./SF''" by code_simp
  have b: "list_ex (\<lambda>t. ef_tagged t \<and> \<not> supported (HONORIFICS ex_T) (signature t)) [unsup_tok]"
    by code_simp
  have f: "find (\<lambda>t. ef_tagged t \<and> \<not> supported (HONORIFICS ex_T) (signature t)) [unsup_tok]
             = Some unsup_tok"
    using b by simp
  have g: "signature unsup_tok = str ''ga/VV+nda/EF+./SF''" by code_simp
  from validation_by_tag [where khaiii = "\<lambda>w. Some [noun_tok]" and snt = "str ''bap''"
         and toks = "[noun_tok]" and T = ex_T and st = Styler_init and lsn = "str ''friend''"
         and env = "str ''private''", OF k1 h1] a j
  have 1: "fst (Styler_call ex_T (\<lambda>w. Some [noun_tok]) Styler_init (str ''bap'') (str ''friend'')
            (str ''private'')) = Inl (EFNotIncludedError (str ''bap/NNG+./SF''))"
    by simp
  from validation_by_tag [where khaiii = "\<lambda>w. Some [unsup_tok]" and snt = "str ''ganda''"
         and toks = "[unsup_tok]" and T = ex_T and st = Styler_init and lsn = "str ''friend''"
         and env = "str ''private''", OF k2 h2] b f g
  have 2: "fst (Styler_call ex_T (\<lambda>w. Some [unsup_tok]) Styler_init (str ''ganda'') (str ''friend'')
            (str ''private'')) = Inl (EFNotSupportedError (str ''ga/VV+nda/EF+./SF''))"
    by auto
  from h1 h2 a b 1 2 show ?thesis by blast
qed

lemma tuner_run_without_validation:
  assumes "tuner_tokens (HONORIFICS ex_T) 2 (lex2morphs toks) [] {} = (Inr [w], {})"
    and "substitute (ABBREVIATIONS ex_T) (join [SPACE] [w]) {} = (w, {})"
    and "substitute (IRREGULARS ex_T) w {} = (i, hi)"
  shows "fst (Tuner_call ex_T (\<lambda>u. Some toks) Tuner_init snt (str ''friend'') (str ''private''))
           = Inr (Text (postprocess_text snt i))"
proof -
  have "Tuner_call ex_T (\<lambda>u. Some toks) Tuner_init snt (str ''friend'') (str ''private'') =
          (Inr (Text (postprocess_text snt i)),
           (tuner_start Tuner_init snt (str ''friend'') (str ''private''))
             \<lparr>t_out := Text (postprocess_text snt i),
              t_logs := [Tokens toks, Text (join [SPACE] [w]), Text w, Text i],
              history_honorifics := {}, t_history_abbreviations := {},
              t_history_irregulars := hi\<rparr>)"
  proof (rule Tuner_call_ok [where by_visibility = "[str ''private'' \<mapsto> \<lparr>politeness = 2, reason = []\<rparr>]"
        and rc = "\<lparr>politeness = 2, reason = []\<rparr>"])
    show "(\<lambda>u. Some toks) (tuner_preprocess_text snt) = Some toks" by simp
    show "RULES ex_T (str ''friend'') = Some [str ''private'' \<mapsto> \<lparr>politeness = 2, reason = []\<rparr>]"
      by (rule ex_rules)
    show "[str ''private'' \<mapsto> \<lparr>politeness = 2, reason = []\<rparr>] (str ''private'')
            = Some \<lparr>politeness = 2, reason = []\<rparr>"
      by (rule ex_env)
    show "tuner_tokens (HONORIFICS ex_T) (politeness \<lparr>politeness = 2, reason = []\<rparr>)
            (lex2morphs toks) [] {} = (Inr [w], {})"
      using assms(1) by simp
    show "substitute (ABBREVIATIONS ex_T) (join [SPACE] [w]) {} = (w, {})"
      by (rule assms(2))
    show "substitute (IRREGULARS ex_T) w {} = (i, hi)"
      by (rule assms(3))
  qed
  then show ?thesis by simp
qed

text \<open>
  The claim as stated fails on the legacy \<open>Tuner\<close>, which has no validation stage: a
  sentence without any final ending is processed and returned, and so is a sentence whose
  final ending no key covers.
\<close>

theorem tuner_skips_validation:
  "\<not> ef_tagged noun_tok \<and> \<not> is_ef (signature noun_tok)
   \<and> fst (Tuner_call ex_T (\<lambda>u. Some [noun_tok]) Tuner_init (str ''bap'') (str ''friend'')
            (str ''private'')) = Inr (Text (str ''bap''))
   \<and> ef_tagged unsup_tok \<and> \<not> supported (HONORIFICS ex_T) (signature unsup_tok)
   \<and> fst (Tuner_call ex_T (\<lambda>u. Some [unsup_tok]) Tuner_init (str ''ganda'') (str ''friend'')
            (str ''private'')) = Inr (Text (str ''ganda''))"
proof (intro conjI)
  show "\<not> ef_tagged noun_tok" by code_simp
  show "\<not> is_ef (signature noun_tok)" by code_simp
  show "ef_tagged unsup_tok" by code_simp
  show "\<not> supported (HONORIFICS ex_T) (signature unsup_tok)" by code_simp
  have "fst (Tuner_call ex_T (\<lambda>u. Some [noun_tok]) Tuner_init (str ''bap'') (str ''friend'')
            (str ''private'')) = Inr (Text (postprocess_text (str ''bap'') (str ''bap!'')))"
  proof (rule tuner_run_without_validation)
    show "tuner_tokens (HONORIFICS ex_T) 2 (lex2morphs [noun_tok]) [] {} = (Inr [str ''bap.''], {})"
      by code_simp
    show "substitute (ABBREVIATIONS ex_T) (join [SPACE] [str ''bap.'']) {} = (str ''bap.'', {})"
      by code_simp
    show "substitute (IRREGULARS ex_T) (str ''bap.'') {} = (str ''bap!'', {(str ''.'', str ''!'')})"
      by code_simp
  qed
  moreover have "postprocess_text (str ''bap'') (str ''bap!'') = str ''bap''" by code_simp
  ultimately show "fst (Tuner_call ex_T (\<lambda>u. Some [noun_tok]) Tuner_init (str ''bap'') (str ''friend'')
            (str ''private'')) = Inr (Text (str ''bap''))"
    by simp
  have "fst (Tuner_call ex_T (\<lambda>u. Some [unsup_tok]) Tuner_init (str ''ganda'') (str ''friend'')
            (str ''private'')) = Inr (Text (postprocess_text (str ''ganda'') (str ''ganda!'')))"
  proof (rule tuner_run_without_validation)
    show "tuner_tokens (HONORIFICS ex_T) 2 (lex2morphs [unsup_tok]) [] {} = (Inr [str ''ganda.''], {})"
      by code_simp
    show "substitute (ABBREVIATIONS ex_T) (join [SPACE] [str ''ganda.'']) {} = (str ''ganda.'', {})"
      by code_simp
    show "substitute (IRREGULARS ex_T) (str ''ganda.'') {} = (str ''ganda!'', {(str ''.'', str ''!'')})"
      by code_simp
  qed
  moreover have "postprocess_text (str ''ganda'') (str ''ganda!'') = str ''ganda''" by code_simp
  ultimately show "fst (Tuner_call ex_T (\<lambda>u. Some [unsup_tok]) Tuner_init (str ''ganda'') (str ''friend'')
            (str ''private'')) = Inr (Text (str ''ganda''))"
    by simp
qed

text \<open>
  \<open>Styler.check\<close> looks for the text \<open>EF\<close> in the joined signature, where its comments and
  error names speak of the final endings of the sentence.  A token without any morpheme
  tagged \<open>EF\<close> whose surface contains \<open>EF\<close> is therefore taken for a final ending: the
  call fails with \<open>EFNotSupportedError\<close> for it.  Such tokens are outside the statement
  above.
\<close>

lemma check_takes_text_for_tag:
  "\<not> ef_tagged chef_tok \<and> is_ef (signature chef_tok)
   \<and> fst (Styler_call ex_T (\<lambda>w. Some [chef_tok]) Styler_init (str ''CHEF'') (str ''friend'')
            (str ''private'')) = Inl (EFNotSupportedError (str ''CHEF/SL''))"
proof (intro conjI)
  show "\<not> ef_tagged chef_tok" by code_simp
  show "is_ef (signature chef_tok)" by code_simp
  have "check_tokens (HONORIFICS ex_T) [chef_tok] = Some (EFNotSupportedError (str ''CHEF/SL''))"
    by code_simp
  then show "fst (Styler_call ex_T (\<lambda>w. Some [chef_tok]) Styler_init (str ''CHEF'') (str ''friend'')
            (str ''private'')) = Inl (EFNotSupportedError (str ''CHEF/SL''))"
    by (simp add: Styler_call_check_fail)
qed

end
